(* ===== verification/Prelude.thy ===== *)
theory Prelude
  imports Main "HOL-Library.Sublist"
begin

text \<open>
  Shared vocabulary of the development: Go error values, the result type of the
  fallible functions, the collections the component theories put their facts into,
  and generic lemmas on lists and sums.

  A Go function that returns \<open>(T, error)\<close> is a function into \<open>go_error + 'a\<close>: \<open>Inl e\<close>
  for a non-nil error (every caller in the program drops the other result then) and
  \<open>Inr x\<close> for \<open>(x, nil)\<close>.
\<close>

section \<open>Error values\<close>

text \<open>
  \<open>Err t\<close> is \<open>errors.New(t)\<close> (or a constant \<open>fmt.Errorf\<close>), \<open>ErrQ t s\<close> is
  \<open>fmt.Errorf("t %q", s)\<close>; \<open>Wrap t e\<close> is \<open>fmt.Errorf("t: %w", e)\<close>, \<open>WrapIdx t i e\<close>
  is \<open>fmt.Errorf("t[%d]: %w", i, e)\<close> , \<open>WrapQ t s e\<close> is \<open>fmt.Errorf("t %q: %w", s, e)\<close> and \<open>WrapNum e n\<close> is \<open>fmt.Errorf("%w: %d", e, n)\<close>.
  \<open>Corrupt n\<close> is \<open>base64.CorruptInputError(n)\<close>; \<open>EOF\<close>, \<open>NetClosed\<close>, \<open>CtxCanceled\<close> and
  \<open>CtxDeadline\<close> are \<open>io.EOF\<close>, \<open>net.ErrClosed\<close>, \<open>context.Canceled\<close> and
  \<open>context.DeadlineExceeded\<close>.  \<open>Ext t\<close> is an error made by the operating system or by a
  package outside the repository.
\<close>

datatype go_error =
    Err string
  | ErrQ string string
  | Wrap string go_error
  | WrapIdx string nat go_error
  | WrapQ string string go_error
  | WrapNum go_error nat
  | Corrupt nat
  | EOF
  | NetClosed
  | CtxCanceled
  | CtxDeadline
  | Ext string

text \<open>\<open>errors.Is\<close>: the error itself or one it wraps equals the target.\<close>

fun errors_is :: "go_error \<Rightarrow> go_error \<Rightarrow> bool" where
  "errors_is (Wrap t e) target = (Wrap t e = target \<or> errors_is e target)"
| "errors_is (WrapIdx t i e) target = (WrapIdx t i e = target \<or> errors_is e target)"
| "errors_is (WrapQ t s e) target = (WrapQ t s e = target \<or> errors_is e target)"
| "errors_is (WrapNum e n) target = (WrapNum e n = target \<or> errors_is e target)"
| "errors_is e target = (e = target)"

lemma errors_is_refl [simp]: "errors_is e e"
  by (cases e) auto

section \<open>Results\<close>

definition map_error :: "('e \<Rightarrow> 'f) \<Rightarrow> 'e + 'a \<Rightarrow> 'f + 'a" where
  "map_error f r = (case r of Inl e \<Rightarrow> Inl (f e) | Inr x \<Rightarrow> Inr x)"

definition is_ok :: "'e + 'a \<Rightarrow> bool" where
  "is_ok r = (case r of Inl _ \<Rightarrow> False | Inr _ \<Rightarrow> True)"

lemma map_error_simps [simp]:
  "map_error f (Inl e) = Inl (f e)"
  "map_error f (Inr x) = Inr x"
  by (simp_all add: map_error_def)

lemma map_error_Inr_iff [simp]: "map_error f r = Inr x \<longleftrightarrow> r = Inr x"
  by (cases r) auto

lemma is_ok_simps [simp]:
  "is_ok (Inl e) \<longleftrightarrow> False"
  "is_ok (Inr x) \<longleftrightarrow> True"
  by (simp_all add: is_ok_def)

lemma is_ok_iff: "is_ok r \<longleftrightarrow> (\<exists>x. r = Inr x)"
  by (cases r) auto

lemma is_ok_map_error [simp]: "is_ok (map_error f r) = is_ok r"
  by (cases r) auto

lemma sum_case_Inr_iff:
  "(case r of Inl e \<Rightarrow> Inl (f e) | Inr x \<Rightarrow> g x) = Inr y \<longleftrightarrow> (\<exists>x. r = Inr x \<and> g x = Inr y)"
  by (cases r) auto

lemma if_Inl_Inr_iff:
  "(if b then Inl e else r) = Inr y \<longleftrightarrow> \<not> b \<and> r = Inr y"
  by simp

lemmas result_Inr_iffs = sum_case_Inr_iff if_Inl_Inr_iff

section \<open>Lists\<close>

lemma prefix_trans_neg: "\<not> prefix w t \<Longrightarrow> prefix u t \<Longrightarrow> \<not> prefix w u"
  by (meson prefix_order.trans)

lemma find_None_prefix_mono:
  assumes "find (\<lambda>w. w \<noteq> [] \<and> prefix w t) ws = None" and "prefix u t"
  shows "find (\<lambda>w. w \<noteq> [] \<and> prefix w u) ws = None"
  using assms by (auto simp: find_None_iff dest: prefix_order.trans)

lemma find_Some_mem: "find P xs = Some x \<Longrightarrow> x \<in> set xs \<and> P x"
  by (auto simp: find_Some_iff)

lemma rev_dropWhile_rev_append:
  "\<exists>zs. xs = rev (dropWhile P (rev xs)) @ zs"
proof -
  have "rev xs = takeWhile P (rev xs) @ dropWhile P (rev xs)" by simp
  then have "xs = rev (dropWhile P (rev xs)) @ rev (takeWhile P (rev xs))"
    by (metis rev_append rev_rev_ident)
  then show ?thesis ..
qed

text \<open>The loop that collects names in a set checks that the names are distinct and new.\<close>

definition fresh_names :: "('a \<Rightarrow> 'b) \<Rightarrow> 'b set \<Rightarrow> 'a list \<Rightarrow> bool" where
  "fresh_names f seen xs \<longleftrightarrow> distinct (map f xs) \<and> f ` set xs \<inter> seen = {}"

lemma fresh_names_Nil [simp]: "fresh_names f seen []"
  by (simp add: fresh_names_def)

lemma fresh_names_Cons [simp]:
  "fresh_names f seen (x # xs) \<longleftrightarrow> f x \<notin> seen \<and> fresh_names f (insert (f x) seen) xs"
  unfolding fresh_names_def by auto

lemma fresh_names_empty [simp]: "fresh_names f {} xs \<longleftrightarrow> distinct (map f xs)"
  by (simp add: fresh_names_def)

end
