(* ===== verification/Go_Strings.thy ===== *)
theory Go_Strings
  imports Prelude
begin

text \<open>
  The functions of Go's \<open>strings\<close>, \<open>strconv\<close> and \<open>net\<close> packages that the program calls.
  A Go string is a sequence of bytes, as an Isabelle \<open>string\<close> is (a \<open>char\<close> is one byte); the
  text a program handles is UTF-8.  \<open>TrimSpace\<close> therefore removes the UTF-8 encodings of
  the Unicode white-space code points, not only the ASCII ones.
\<close>

section \<open>TrimSpace and the other trimming functions\<close>

text \<open>
  The UTF-8 encodings of the code points \<open>unicode.IsSpace\<close> accepts: tab to carriage
  return and space, U+0085, U+00A0, U+1680, U+2000 to U+200A, U+2028, U+2029, U+202F,
  U+205F and U+3000.  A string starts (ends) with a white-space rune exactly when it starts
  (ends) with one of these byte sequences: the first byte of each starts a rune and fixes
  its length.
\<close>

definition white_seqs :: "string list" where
  "white_seqs =
     [[CHR 0x20], [CHR 0x09], [CHR 0x0A], [CHR 0x0B], [CHR 0x0C], [CHR 0x0D],
      [CHR 0xC2, CHR 0x85], [CHR 0xC2, CHR 0xA0], [CHR 0xE1, CHR 0x9A, CHR 0x80],
      [CHR 0xE2, CHR 0x80, CHR 0x80], [CHR 0xE2, CHR 0x80, CHR 0x81],
      [CHR 0xE2, CHR 0x80, CHR 0x82], [CHR 0xE2, CHR 0x80, CHR 0x83],
      [CHR 0xE2, CHR 0x80, CHR 0x84], [CHR 0xE2, CHR 0x80, CHR 0x85],
      [CHR 0xE2, CHR 0x80, CHR 0x86], [CHR 0xE2, CHR 0x80, CHR 0x87],
      [CHR 0xE2, CHR 0x80, CHR 0x88], [CHR 0xE2, CHR 0x80, CHR 0x89],
      [CHR 0xE2, CHR 0x80, CHR 0x8A], [CHR 0xE2, CHR 0x80, CHR 0xA8],
      [CHR 0xE2, CHR 0x80, CHR 0xA9], [CHR 0xE2, CHR 0x80, CHR 0xAF],
      [CHR 0xE2, CHR 0x81, CHR 0x9F], [CHR 0xE3, CHR 0x80, CHR 0x80]]"

text \<open>Remove leading occurrences of the given non-empty sequences, as long as there is one.\<close>

function strip_seqs :: "string list \<Rightarrow> string \<Rightarrow> string" where
  "strip_seqs ws s =
     (case find (\<lambda>w. w \<noteq> [] \<and> prefix w s) ws of
        None \<Rightarrow> s
      | Some w \<Rightarrow> strip_seqs ws (drop (length w) s))"
  by pat_completeness auto
termination
  by (relation "measure (\<lambda>(ws, s). length s)")
    (auto dest!: find_Some_mem simp: prefix_def)

declare strip_seqs.simps [simp del]

definition trim_left :: "string \<Rightarrow> string" where
  "trim_left s = strip_seqs white_seqs s"

definition trim_right :: "string \<Rightarrow> string" where
  "trim_right s = rev (strip_seqs (map rev white_seqs) (rev s))"

definition trim_space :: "string \<Rightarrow> string" where
  "trim_space s = trim_right (trim_left s)"

text \<open>\<open>strings.TrimRight(s, "/")\<close>, \<open>strings.TrimPrefix\<close> and \<open>strings.TrimSuffix\<close>.\<close>

definition trim_right_slash :: "string \<Rightarrow> string" where
  "trim_right_slash s = rev (dropWhile (\<lambda>c. c = CHR ''/'') (rev s))"

definition trim_prefix :: "string \<Rightarrow> string \<Rightarrow> string" where
  "trim_prefix p s = (if prefix p s then drop (length p) s else s)"

definition trim_suffix :: "string \<Rightarrow> string \<Rightarrow> string" where
  "trim_suffix p s = (if suffix p s then take (length s - length p) s else s)"

lemma strip_seqs_suffix: "suffix (strip_seqs ws s) s"
proof (induction ws s rule: strip_seqs.induct)
  case (1 ws s)
  show ?case
  proof (cases "find (\<lambda>w. w \<noteq> [] \<and> prefix w s) ws")
    case None
    then show ?thesis by (simp add: strip_seqs.simps)
  next
    case (Some w)
    with 1 have "suffix (strip_seqs ws (drop (length w) s)) (drop (length w) s)" by simp
    with Some show ?thesis
      by (subst strip_seqs.simps) (auto intro: suffix_order.trans suffix_drop)
  qed
qed

lemma strip_seqs_stop:
  "find (\<lambda>w. w \<noteq> [] \<and> prefix w (strip_seqs ws s)) ws = None"
proof (induction ws s rule: strip_seqs.induct)
  case (1 ws s)
  show ?case
  proof (cases "find (\<lambda>w. w \<noteq> [] \<and> prefix w s) ws")
    case None
    then show ?thesis by (simp add: strip_seqs.simps)
  next
    case (Some w)
    with 1 show ?thesis by (simp add: strip_seqs.simps [of ws s])
  qed
qed

lemma strip_seqs_id:
  "find (\<lambda>w. w \<noteq> [] \<and> prefix w s) ws = None \<Longrightarrow> strip_seqs ws s = s"
  by (simp add: strip_seqs.simps)

lemma strip_seqs_idem [simp]: "strip_seqs ws (strip_seqs ws s) = strip_seqs ws s"
  by (rule strip_seqs_id) (rule strip_seqs_stop)

lemma trim_right_prefix: "prefix (trim_right s) s"
proof -
  have "suffix (strip_seqs (map rev white_seqs) (rev s)) (rev s)" by (rule strip_seqs_suffix)
  then show ?thesis
    by (simp add: trim_right_def suffix_to_prefix)
qed

lemma trim_right_idem [simp]: "trim_right (trim_right s) = trim_right s"
  by (simp add: trim_right_def)

lemma trim_left_trim_space [simp]: "trim_left (trim_space s) = trim_space s"
proof -
  have "find (\<lambda>w. w \<noteq> [] \<and> prefix w (trim_left s)) white_seqs = None"
    unfolding trim_left_def by (rule strip_seqs_stop)
  then have "find (\<lambda>w. w \<noteq> [] \<and> prefix w (trim_space s)) white_seqs = None"
    unfolding trim_space_def by (rule find_None_prefix_mono) (rule trim_right_prefix)
  then show ?thesis unfolding trim_left_def by (rule strip_seqs_id)
qed

lemma trim_space_idem [simp]: "trim_space (trim_space s) = trim_space s"
  by (metis trim_left_trim_space trim_right_idem trim_space_def)

lemma trim_space_length: "length (trim_space s) \<le> length s"
  using strip_seqs_suffix [of white_seqs s] trim_right_prefix [of "trim_left s"]
  by (auto simp: trim_space_def trim_left_def dest!: suffix_length_le prefix_length_le)

lemma trim_space_set: "set (trim_space s) \<subseteq> set s"
  using strip_seqs_suffix [of white_seqs s] trim_right_prefix [of "trim_left s"]
  by (auto simp: trim_space_def trim_left_def dest!: set_mono_prefix set_mono_suffix)

lemma trim_space_Nil [simp]: "trim_space [] = []"
  using trim_space_length [of "[]"] by simp

text \<open>Text whose first and last byte are printable ASCII is left alone by \<open>TrimSpace\<close>.\<close>

definition plain_char :: "char \<Rightarrow> bool" where
  "plain_char c \<longleftrightarrow> 0x20 < (of_char c :: nat) \<and> (of_char c :: nat) < 0x7F"

lemma plain_char_not_white:
  assumes "plain_char c" shows "\<forall>w \<in> set white_seqs. hd w \<noteq> c \<and> last w \<noteq> c"
  using assms by (auto simp: white_seqs_def plain_char_def)

lemma white_seqs_nonempty: "[] \<notin> set white_seqs"
  by (simp add: white_seqs_def)

lemma strip_seqs_hd:
  assumes "\<forall>w \<in> set ws. w \<noteq> [] \<longrightarrow> hd w \<noteq> hd s"
  shows "strip_seqs ws s = s"
proof (rule strip_seqs_id)
  show "find (\<lambda>w. w \<noteq> [] \<and> prefix w s) ws = None"
    using assms by (auto simp: find_None_iff prefix_def)
qed

lemma trim_left_plain: "plain_char (hd s) \<Longrightarrow> trim_left s = s"
  unfolding trim_left_def by (rule strip_seqs_hd) (auto dest: plain_char_not_white)

lemma trim_right_plain:
  assumes "plain_char (last s)" shows "trim_right s = s"
proof (cases "s = []")
  case True
  have "suffix (strip_seqs (map rev white_seqs) []) []" by (rule strip_seqs_suffix)
  with True show ?thesis by (simp add: trim_right_def)
next
  case False
  have "strip_seqs (map rev white_seqs) (rev s) = rev s"
    using plain_char_not_white [OF assms] False
    by (intro strip_seqs_hd) (auto simp: hd_rev)
  then show ?thesis by (simp add: trim_right_def)
qed

lemma trim_space_plain:
  "plain_char (hd s) \<Longrightarrow> plain_char (last s) \<Longrightarrow> trim_space s = s"
  by (simp add: trim_space_def trim_left_plain trim_right_plain)

lemma trim_space_all_plain:
  assumes "\<forall>c \<in> set s. plain_char c" shows "trim_space s = s"
  using assms by (cases "s = []") (auto intro: trim_space_plain)

lemma trim_right_slash_prefix: "prefix (trim_right_slash s) s"
  using rev_dropWhile_rev_append [of s] by (auto simp: trim_right_slash_def prefix_def)

lemma trim_right_slash_idem [simp]: "trim_right_slash (trim_right_slash s) = trim_right_slash s"
  by (simp add: trim_right_slash_def)

lemma trim_right_slash_last: "trim_right_slash s \<noteq> [] \<Longrightarrow> last (trim_right_slash s) \<noteq> CHR ''/''"
  using hd_dropWhile [of "\<lambda>c. c = CHR ''/''" "rev s"]
  by (auto simp: trim_right_slash_def last_rev simp del: dropWhile_eq_Nil_conv)

section \<open>Case mapping\<close>

text \<open>
  \<open>strings.ToLower\<close> maps an all-ASCII string byte by byte.  On a string with a non-ASCII
  byte it maps each rune by the Unicode tables, which are the parameter \<open>uni\<close> here.
\<close>

definition is_ascii :: "char \<Rightarrow> bool" where
  "is_ascii c \<longleftrightarrow> (of_char c :: nat) < 0x80"

definition ascii_lower :: "char \<Rightarrow> char" where
  "ascii_lower c =
     (let n = (of_char c :: nat) in if 0x41 \<le> n \<and> n \<le> 0x5A then char_of (n + 0x20) else c)"

definition to_lower :: "(string \<Rightarrow> string) \<Rightarrow> string \<Rightarrow> string" where
  "to_lower uni s = (if list_all is_ascii s then map ascii_lower s else uni s)"

text \<open>
  \<open>strings.EqualFold(s, t)\<close> for a \<open>t\<close> made of ASCII bytes none of which is a \<open>k\<close> or an
  \<open>s\<close> (those two have a non-ASCII rune in their folding orbit): case-insensitive equality.
\<close>

definition equal_fold :: "string \<Rightarrow> string \<Rightarrow> bool" where
  "equal_fold s t \<longleftrightarrow> map ascii_lower s = map ascii_lower t"

lemma ascii_lower_idem [simp]: "ascii_lower (ascii_lower c) = ascii_lower c"
  by (simp add: ascii_lower_def Let_def)

lemma is_ascii_lower [simp]: "is_ascii c \<Longrightarrow> is_ascii (ascii_lower c)"
  by (simp add: ascii_lower_def is_ascii_def Let_def)

lemma to_lower_idem_ascii: "list_all is_ascii s \<Longrightarrow> to_lower uni (to_lower uni s) = to_lower uni s"
  by (auto simp: to_lower_def list_all_iff)

lemma to_lower_Nil [simp]: "to_lower uni [] = []"
  by (simp add: to_lower_def)

section \<open>Numbers and lists as text\<close>

text \<open>\<open>fmt.Sprintf("%d", n)\<close>.\<close>

fun nat_digits :: "nat \<Rightarrow> string" where
  "nat_digits n =
     (if n < 10 then [char_of (48 + n)] else nat_digits (n div 10) @ [char_of (48 + n mod 10)])"

declare nat_digits.simps [simp del]

definition itoa :: "int \<Rightarrow> string" where
  "itoa i = (if i < 0 then CHR ''-'' # nat_digits (nat (- i)) else nat_digits (nat i))"

text \<open>\<open>strings.Join\<close>.\<close>

fun join :: "string \<Rightarrow> string list \<Rightarrow> string" where
  "join sep [] = []"
| "join sep [x] = x"
| "join sep (x # y # xs) = x @ sep @ join sep (y # xs)"

lemma nat_digits_nonempty [simp]: "nat_digits n \<noteq> []"
  by (subst nat_digits.simps) simp

lemma join_Cons: "xs \<noteq> [] \<Longrightarrow> join sep (x # xs) = x @ sep @ join sep xs"
  by (cases xs) auto

text \<open>A lower-case hexadecimal digit, as \<open>strconv\<close> and \<open>time\<close> write it.\<close>

definition hex_char :: "nat \<Rightarrow> char" where
  "hex_char d = (if d < 10 then char_of (48 + d) else char_of (87 + d))"

end
