(* ===== verification/Externals.thy ===== *)
theory Externals
  imports Go_Strings
begin

text \<open>
  What the program takes from code outside the repository and from the operating system.
  One record \<open>env\<close> is an argument of every definition that uses any of it:

  \<^item> \<open>kless\<close>: the constants of \<open>kray/pkg/kless\<close> (an external module).  A capability set is an
    unsigned integer that the code only combines with bitwise or and compares with 0.
  \<^item> \<open>unicode_ToLower\<close>: \<open>strings.ToLower\<close> on text with a non-ASCII byte, which goes through
    the Unicode tables.
  \<^item> \<open>unicode_Quote\<close>: \<open>strconv.Quote\<close> on such text (the tables of printable characters).
  \<^item> \<open>url_Parse\<close> and \<open>url_ParseRequestURI\<close>: the parser of \<open>net/url\<close>, with the four parts of its
    result that the program reads.
  \<^item> \<open>os_Stat\<close>: whether a file is there.
\<close>

record kless_lib =
  CapabilityTCP :: nat
  CapabilityTLS :: nat
  CapabilityHTTPUpgrade :: nat
  CapabilityWebSocket :: nat
  CapabilityHTTP :: nat
  CapabilityGRPC :: nat
  CapabilityXHTTP :: nat
  CapabilityHTTP3 :: nat
  CapabilityAll :: nat
  DefaultMaxFramePayload :: int
  MaxHandshakePadding :: int
  DefaultHandshakeSkew :: int

record parsed_url =
  url_Scheme :: string
  url_Host :: string
  url_EscapedPath :: string
  url_RawQuery :: string

record env =
  kless :: kless_lib
  unicode_ToLower :: "string \<Rightarrow> string"
  unicode_Quote :: "string \<Rightarrow> string"
  url_Parse :: "string \<Rightarrow> go_error + parsed_url"
  url_ParseRequestURI :: "string \<Rightarrow> go_error + parsed_url"
  os_Stat :: "string \<Rightarrow> go_error + unit"

text \<open>\<open>strings.ToLower\<close>.\<close>

definition ToLower :: "env \<Rightarrow> string \<Rightarrow> string" where
  "ToLower E s = to_lower (unicode_ToLower E) s"

lemma ToLower_Nil [simp]: "ToLower E [] = []"
  by (simp add: ToLower_def)

lemma ToLower_ascii: "list_all is_ascii s \<Longrightarrow> ToLower E s = map ascii_lower s"
  by (simp add: ToLower_def to_lower_def)

end
