(* ===== verification/Base64.thy ===== *)
theory Base64
  imports Go_Strings "HOL-Library.Word"
begin

text \<open>
  Go's \<open>encoding/base64\<close>, as far as the key material of the configuration and of the
  Kboard user list uses it: the four encodings \<open>RawStdEncoding\<close>, \<open>StdEncoding\<close>,
  \<open>RawURLEncoding\<close> and \<open>URLEncoding\<close>, none of them strict.  The decoder ignores line
  breaks; the callers have removed them already, so the model is of text without line
  breaks.  The main lemmas: every encoding decodes to what was encoded, and no other
  encoding's decoder gives a different answer on the encoded text.
\<close>

section \<open>Encodings\<close>

type_synonym bytes = "8 word list"

record b64_encoding =
  url_alphabet :: bool
  padded :: bool

definition RawStdEncoding :: b64_encoding where
  "RawStdEncoding = \<lparr>url_alphabet = False, padded = False\<rparr>"

definition StdEncoding :: b64_encoding where
  "StdEncoding = \<lparr>url_alphabet = False, padded = True\<rparr>"

definition RawURLEncoding :: b64_encoding where
  "RawURLEncoding = \<lparr>url_alphabet = True, padded = False\<rparr>"

definition URLEncoding :: b64_encoding where
  "URLEncoding = \<lparr>url_alphabet = True, padded = True\<rparr>"

lemmas b64_encoding_defs =
  RawStdEncoding_def StdEncoding_def RawURLEncoding_def URLEncoding_def

text \<open>The six-bit digit of a character, and the character of a digit.\<close>

definition b64_digit :: "b64_encoding \<Rightarrow> char \<Rightarrow> nat option" where
  "b64_digit e c =
     (let n = (of_char c :: nat) in
      if 0x41 \<le> n \<and> n \<le> 0x5A then Some (n - 0x41)
      else if 0x61 \<le> n \<and> n \<le> 0x7A then Some (n - 0x61 + 26)
      else if 0x30 \<le> n \<and> n \<le> 0x39 then Some (n - 0x30 + 52)
      else if n = (if url_alphabet e then 0x2D else 0x2B) then Some 62
      else if n = (if url_alphabet e then 0x5F else 0x2F) then Some 63
      else None)"

definition b64_char :: "b64_encoding \<Rightarrow> nat \<Rightarrow> char" where
  "b64_char e d =
     (if d < 26 then char_of (d + 0x41)
      else if d < 52 then char_of (d - 26 + 0x61)
      else if d < 62 then char_of (d - 52 + 0x30)
      else if d = 62 then (if url_alphabet e then CHR ''-'' else CHR ''+'')
      else (if url_alphabet e then CHR ''_'' else CHR ''/''))"

definition pad_char :: char where
  "pad_char = CHR ''=''"

text \<open>The three bytes of four digits.\<close>

definition quantum_bytes :: "nat \<Rightarrow> nat \<Rightarrow> nat \<Rightarrow> nat \<Rightarrow> bytes" where
  "quantum_bytes a b c d =
     (let v = a * 2 ^ 18 + b * 2 ^ 12 + c * 2 ^ 6 + d in
      [word_of_nat (v div 2 ^ 16), word_of_nat (v div 2 ^ 8), word_of_nat v])"

section \<open>Encoding and decoding\<close>

text \<open>
  \<open>b64_decode e off s\<close> is \<open>decodeQuantum\<close> repeated from offset \<open>off\<close> of the input: the
  decoded bytes or the \<open>CorruptInputError\<close> with the offset Go reports.
\<close>

fun b64_decode :: "b64_encoding \<Rightarrow> nat \<Rightarrow> string \<Rightarrow> go_error + bytes" where
  "b64_decode e off [] = Inr []"
| "b64_decode e off [a] = Inl (Corrupt off)"
| "b64_decode e off [a, b] =
     (case b64_digit e a of
        None \<Rightarrow> Inl (Corrupt off)
      | Some x \<Rightarrow>
     (case b64_digit e b of
        None \<Rightarrow> Inl (Corrupt (off + 1))
      | Some y \<Rightarrow>
          if padded e then Inl (Corrupt off)
          else Inr (take 1 (quantum_bytes x y 0 0))))"
| "b64_decode e off [a, b, c] =
     (case b64_digit e a of
        None \<Rightarrow> Inl (Corrupt off)
      | Some x \<Rightarrow>
     (case b64_digit e b of
        None \<Rightarrow> Inl (Corrupt (off + 1))
      | Some y \<Rightarrow>
     (case b64_digit e c of
        None \<Rightarrow>
          if padded e \<and> c = pad_char then Inl (Corrupt (off + 3))
          else Inl (Corrupt (off + 2))
      | Some z \<Rightarrow>
          if padded e then Inl (Corrupt off)
          else Inr (take 2 (quantum_bytes x y z 0)))))"
| "b64_decode e off (a # b # c # d # rest) =
     (case b64_digit e a of
        None \<Rightarrow> Inl (Corrupt off)
      | Some x \<Rightarrow>
     (case b64_digit e b of
        None \<Rightarrow> Inl (Corrupt (off + 1))
      | Some y \<Rightarrow>
     (case b64_digit e c of
        None \<Rightarrow>
          if padded e \<and> c = pad_char then
            if d \<noteq> pad_char then Inl (Corrupt (off + 2))
            else if rest \<noteq> [] then Inl (Corrupt (off + 4))
            else Inr (take 1 (quantum_bytes x y 0 0))
          else Inl (Corrupt (off + 2))
      | Some z \<Rightarrow>
     (case b64_digit e d of
        None \<Rightarrow>
          if padded e \<and> d = pad_char then
            if rest \<noteq> [] then Inl (Corrupt (off + 4))
            else Inr (take 2 (quantum_bytes x y z 0))
          else Inl (Corrupt (off + 3))
      | Some w \<Rightarrow>
          (case b64_decode e (off + 4) rest of
             Inl err \<Rightarrow> Inl err
           | Inr out \<Rightarrow> Inr (quantum_bytes x y z w @ out))))))"

fun b64_encode :: "b64_encoding \<Rightarrow> bytes \<Rightarrow> string" where
  "b64_encode e [] = []"
| "b64_encode e [p] =
     (let v = unat p * 2 ^ 16 in
      [b64_char e (v div 2 ^ 18), b64_char e (v div 2 ^ 12 mod 64)]
      @ (if padded e then [pad_char, pad_char] else []))"
| "b64_encode e [p, q] =
     (let v = unat p * 2 ^ 16 + unat q * 2 ^ 8 in
      [b64_char e (v div 2 ^ 18), b64_char e (v div 2 ^ 12 mod 64), b64_char e (v div 2 ^ 6 mod 64)]
      @ (if padded e then [pad_char] else []))"
| "b64_encode e (p # q # r # rest) =
     (let v = unat p * 2 ^ 16 + unat q * 2 ^ 8 + unat r in
      [b64_char e (v div 2 ^ 18), b64_char e (v div 2 ^ 12 mod 64),
       b64_char e (v div 2 ^ 6 mod 64), b64_char e (v mod 64)]
      @ b64_encode e rest)"

section \<open>Characters and digits\<close>

lemma b64_digit_char: "d < 64 \<Longrightarrow> b64_digit e (b64_char e d) = Some d"
  by (auto simp: b64_digit_def b64_char_def Let_def)

lemma b64_digit_lt: "b64_digit e c = Some d \<Longrightarrow> d < 64"
  by (auto simp: b64_digit_def Let_def split: if_splits)

text \<open>The two alphabets give the same digit to every character both of them contain.\<close>

lemma b64_digit_other: "b64_digit e' (b64_char e d) = Some x \<Longrightarrow> d < 64 \<Longrightarrow> x = d"
  by (auto simp: b64_digit_def b64_char_def Let_def split: if_splits)

lemma b64_digit_pad [simp]: "b64_digit e pad_char = None"
  by (simp add: b64_digit_def pad_char_def)

lemma b64_char_not_pad: "d < 64 \<Longrightarrow> b64_char e d \<noteq> pad_char"
  using b64_digit_char [of d e] by auto

lemma plain_char_of: "0x20 < (n::nat) \<Longrightarrow> n < 0x7F \<Longrightarrow> plain_char (char_of n)"
  by (simp add: plain_char_def)

lemma b64_char_plain: "d < 64 \<Longrightarrow> plain_char (b64_char e d)"
  by (auto simp: b64_char_def intro: plain_char_of) (simp_all add: plain_char_def)

lemma pad_char_plain: "plain_char pad_char"
  by (simp add: plain_char_def pad_char_def)

section \<open>Round trips\<close>

lemma sum_of_digits:
  fixes v :: nat
  shows "v div 2 ^ 18 * 2 ^ 18 + v div 2 ^ 12 mod 64 * 2 ^ 12 + v div 2 ^ 6 mod 64 * 2 ^ 6 + v mod 64 = v"
proof -
  define x y z where "x = v div 64" and "y = x div 64" and "z = y div 64"
  have parts: "v div 2 ^ 6 = x" "v div 2 ^ 12 = y" "v div 2 ^ 18 = z"
    by (simp_all add: x_def y_def z_def div_mult2_eq [symmetric])
  have "v = x * 64 + v mod 64" "x = y * 64 + x mod 64" "y = z * 64 + y mod 64"
    by (simp_all add: x_def y_def z_def)
  then show ?thesis unfolding parts by simp
qed

lemma unat_of_char: "unat (of_char c :: 8 word) = (of_char c :: nat)"
proof -
  have "unat (of_char c :: 8 word) = unat (word_of_nat (of_char c) :: 8 word)"
    by (simp only: of_nat_of_char)
  also have "\<dots> = of_char c mod 256"
    by (simp only: unat_of_nat) simp
  finally show ?thesis by simp
qed

lemma byte_lt: "unat (w :: 8 word) < 256"
  using unsigned_less [of w, where ?'a = nat] by simp

lemma quantum_bytes_three:
  fixes p q r :: "8 word"
  defines "v \<equiv> unat p * 2 ^ 16 + unat q * 2 ^ 8 + unat r"
  shows "quantum_bytes (v div 2 ^ 18) (v div 2 ^ 12 mod 64) (v div 2 ^ 6 mod 64) (v mod 64) = [p, q, r]"
    and "v div 2 ^ 18 < 64"
proof -
  have b: "unat p < 256" "unat q < 256" "unat r < 256"
    using byte_lt [of p] byte_lt [of q] byte_lt [of r] by simp_all
  then have lt: "v < 2 ^ 24" by (simp add: v_def)
  then show "v div 2 ^ 18 < 64" by simp
  from b have hi: "v div 2 ^ 16 = unat p" and mid: "v div 2 ^ 8 = unat p * 256 + unat q"
    by (simp_all add: v_def)
  have z: "(256 :: 8 word) = 0" "(65536 :: 8 word) = 0" by simp_all
  have "word_of_nat (v div 2 ^ 16) = p" by (simp only: hi) simp
  moreover have "word_of_nat (v div 2 ^ 8) = q" by (simp only: mid) (simp add: z)
  moreover have "word_of_nat v = r" by (simp add: v_def z)
  ultimately show
    "quantum_bytes (v div 2 ^ 18) (v div 2 ^ 12 mod 64) (v div 2 ^ 6 mod 64) (v mod 64) = [p, q, r]"
    using sum_of_digits [of v] by (simp add: quantum_bytes_def Let_def)
qed

text \<open>The two short tails are the same with the missing bytes zero.\<close>

lemma quantum_bytes_two:
  fixes p q :: "8 word"
  defines "v \<equiv> unat p * 2 ^ 16 + unat q * 2 ^ 8"
  shows "take 2 (quantum_bytes (v div 2 ^ 18) (v div 2 ^ 12 mod 64) (v div 2 ^ 6 mod 64) 0) = [p, q]"
    and "v div 2 ^ 18 < 64"
proof -
  have "v mod 64 = 0" by (simp add: v_def)
  with quantum_bytes_three [of p q 0]
  show "take 2 (quantum_bytes (v div 2 ^ 18) (v div 2 ^ 12 mod 64) (v div 2 ^ 6 mod 64) 0) = [p, q]"
    and "v div 2 ^ 18 < 64"
    by (simp_all add: v_def)
qed

lemma quantum_bytes_one:
  fixes p :: "8 word"
  defines "v \<equiv> unat p * 2 ^ 16"
  shows "take 1 (quantum_bytes (v div 2 ^ 18) (v div 2 ^ 12 mod 64) 0 0) = [p]"
    and "v div 2 ^ 18 < 64"
proof -
  have "v div 2 ^ 6 mod 64 = 0" and "v mod 64 = 0" by (simp_all add: v_def)
  with quantum_bytes_three [of p 0 0]
  show "take 1 (quantum_bytes (v div 2 ^ 18) (v div 2 ^ 12 mod 64) 0 0) = [p]"
    and "v div 2 ^ 18 < 64"
    by (simp_all add: v_def)
qed

lemma b64_roundtrip: "b64_decode e off (b64_encode e bs) = Inr bs"
proof (induction e bs arbitrary: off rule: b64_encode.induct)
  case (2 e p)
  show ?case
    using quantum_bytes_one [of p]
    by (cases "padded e") (simp_all add: Let_def b64_digit_char)
next
  case (3 e p q)
  show ?case
    using quantum_bytes_two [of p q]
    by (cases "padded e") (simp_all add: Let_def b64_digit_char)
next
  case (4 e p q r rest)
  then show ?case
    using quantum_bytes_three [of p q r] by (simp add: Let_def b64_digit_char)
qed simp

text \<open>A decoder of another encoding that accepts the encoded text decodes it to the same bytes.\<close>

lemma b64_decode_encode_agree:
  "b64_decode e' off (b64_encode e bs) = Inr out \<Longrightarrow> out = bs"
proof (induction e bs arbitrary: off out rule: b64_encode.induct)
  case (2 e p)
  then show ?case
    using quantum_bytes_one [of p]
    by (auto simp: Let_def dest!: b64_digit_other split: option.splits if_splits)
next
  case (3 e p q)
  then show ?case
    using quantum_bytes_two [of p q]
    by (auto simp: Let_def b64_char_not_pad dest!: b64_digit_other split: option.splits if_splits)
next
  case (4 e p q r rest)
  from "4.prems" show ?case
    using quantum_bytes_three [of p q r]
    by (auto simp: Let_def b64_char_not_pad dest!: b64_digit_other dest: "4.IH" [OF refl]
        split: option.splits if_splits sum.splits)
qed simp

lemma b64_encode_plain: "c \<in> set (b64_encode e bs) \<Longrightarrow> plain_char c"
proof (induction e bs rule: b64_encode.induct)
  case (2 e p)
  then show ?case
    using quantum_bytes_one(2) [of p]
    by (auto simp: Let_def intro: b64_char_plain pad_char_plain split: if_splits)
next
  case (3 e p q)
  then show ?case
    using quantum_bytes_two(2) [of p q]
    by (auto simp: Let_def intro: b64_char_plain pad_char_plain split: if_splits)
next
  case (4 e p q r rest)
  then show ?case
    using quantum_bytes_three(2) [of p q r]
    by (auto simp: Let_def intro: b64_char_plain)
qed simp

text \<open>How many bytes unpadded text decodes to.\<close>

lemma b64_decode_length:
  "b64_decode e off s = Inr out \<Longrightarrow> \<not> padded e \<Longrightarrow> length out = length s * 3 div 4"
proof (induction e off s arbitrary: out rule: b64_decode.induct)
  case (5 e off a b c d rest)
  then show ?case
    by (auto simp: quantum_bytes_def Let_def split: option.splits if_splits sum.splits)
qed (auto simp: quantum_bytes_def Let_def split: option.splits if_splits)

end
