(* ===== verification/Keys.thy ===== *)
theory Keys
  imports Base64
begin

text \<open>
  The key material of the configuration and of the Kboard user list: the text decoders
  \<open>decodeKey\<close> (\<open>internal/config/config.go\<close>) and \<open>decodeKLESSKey\<close>
  (\<open>internal/node/kboard.go\<close>), the encoder \<open>encodeClientSecret\<close>
  (\<open>internal/node/client_store.go\<close>) and the comparisons of secrets and key pairs.
\<close>

section \<open>Decoding\<close>

text \<open>
  The callback of \<open>strings.Map\<close> drops blanks, tabs and line breaks.  \<open>strings.Map\<close> would also
  replace bytes that are not UTF-8 by U+FFFD; both are outside every base64 alphabet, at the
  same offset, so the result of decoding is the same.
\<close>

definition drop_blanks :: "string \<Rightarrow> string" where
  "drop_blanks s = filter (\<lambda>r. r \<notin> {CHR '' '', CHR 0x09, CHR 0x0A, CHR 0x0D}) s"

fun try_encodings :: "b64_encoding list \<Rightarrow> go_error option \<Rightarrow> string \<Rightarrow> go_error + bytes" where
  "try_encodings [] firstErr text =
     (case firstErr of None \<Rightarrow> Inr [] | Some e \<Rightarrow> Inl e)"
| "try_encodings (encoding # encodings) firstErr text =
     (case b64_decode encoding 0 text of
        Inr out \<Rightarrow> Inr out
      | Inl err \<Rightarrow>
          try_encodings encodings (if firstErr = None then Some err else firstErr) text)"

definition decodeKey :: "string \<Rightarrow> go_error + bytes" where
  "decodeKey text =
     try_encodings [RawStdEncoding, StdEncoding, RawURLEncoding, URLEncoding] None
       (drop_blanks (trim_space text))"

definition decodeKLESSKey :: "string \<Rightarrow> go_error + bytes" where
  "decodeKLESSKey text =
     try_encodings [RawStdEncoding, StdEncoding, RawURLEncoding, URLEncoding] None
       (drop_blanks (trim_space text))"

definition encodeClientSecret :: "bytes \<Rightarrow> string" where
  "encodeClientSecret secret = b64_encode RawURLEncoding secret"

section \<open>Comparisons\<close>

definition sameNonEmptySecret :: "string \<Rightarrow> string \<Rightarrow> bool" where
  "sameNonEmptySecret a b =
     (let a = trim_space a; b = trim_space b in a \<noteq> [] \<and> b \<noteq> [] \<and> a = b)"

text \<open>
  \<open>ed25519.PrivateKey.Public\<close> returns bytes 32 to 63 of the 64-byte private key.
\<close>

definition PublicKeySize :: nat where
  "PublicKeySize = 32"

definition PrivateKeySize :: nat where
  "PrivateKeySize = 64"

definition ed25519_Public :: "bytes \<Rightarrow> bytes" where
  "ed25519_Public private = drop 32 private"

definition publicMatchesPrivate :: "bytes \<Rightarrow> bytes \<Rightarrow> bool" where
  "publicMatchesPrivate public private \<longleftrightarrow> public = ed25519_Public private"

section \<open>Lemmas\<close>

lemma decodeKLESSKey_eq: "decodeKLESSKey text = decodeKey text"
  by (simp add: decodeKLESSKey_def decodeKey_def)

text \<open>Every encoding of the four decodes to the bytes it was made from, blanks around it or not.\<close>

lemma drop_blanks_plain: "\<forall>c \<in> set s. plain_char c \<Longrightarrow> drop_blanks s = s"
  unfolding drop_blanks_def by (rule filter_True) (auto simp: plain_char_def)

lemma try_encodings_agree:
  assumes "e \<in> set es"
  shows "try_encodings es fe (b64_encode e bs) = Inr bs"
  using assms
proof (induction es arbitrary: fe)
  case (Cons e' es)
  show ?case
  proof (cases "b64_decode e' 0 (b64_encode e bs)")
    case (Inr out)
    then show ?thesis using b64_decode_encode_agree by force
  next
    case (Inl err)
    then have "e' \<noteq> e" using b64_roundtrip by force
    with Cons Inl show ?thesis by simp
  qed
qed simp

lemma b64_encoding_cases:
  "e \<in> set [RawStdEncoding, StdEncoding, RawURLEncoding, URLEncoding]"
  by (cases e) (auto simp: b64_encoding_defs)

lemma decodeKey_encode: "decodeKey (b64_encode e bs) = Inr bs"
proof -
  have p: "\<forall>c \<in> set (b64_encode e bs). plain_char c" by (auto dest: b64_encode_plain)
  show ?thesis
    unfolding decodeKey_def trim_space_all_plain [OF p] drop_blanks_plain [OF p]
    by (rule try_encodings_agree) (rule b64_encoding_cases)
qed

lemma decodeKey_trim: "decodeKey (trim_space s) = decodeKey s"
  by (simp add: decodeKey_def)

lemma try_encodings_firstErr:
  "try_encodings es (Some e) text = Inl e' \<Longrightarrow> e' = e"
  by (induction es) (auto split: sum.splits)

lemma decodeKey_error:
  "decodeKey text = Inl e \<Longrightarrow> b64_decode RawStdEncoding 0 (drop_blanks (trim_space text)) = Inl e"
  by (auto simp: decodeKey_def split: sum.splits dest: try_encodings_firstErr)

lemma sameNonEmptySecret_iff:
  "sameNonEmptySecret a b \<longleftrightarrow> trim_space a \<noteq> [] \<and> trim_space a = trim_space b"
  by (auto simp: sameNonEmptySecret_def Let_def)

lemma sameNonEmptySecret_trim [simp]:
  "sameNonEmptySecret (trim_space a) b = sameNonEmptySecret a b"
  "sameNonEmptySecret a (trim_space b) = sameNonEmptySecret a b"
  by (simp_all add: sameNonEmptySecret_iff)

end
