(* ===== verification/Duration_Text.thy ===== *)
theory Duration_Text
  imports Duration
begin

text \<open>
  \<open>time.Duration.String\<close> and the proof that its text parses back: for every
  \<open>int64\<close> duration, \<open>ParseDuration(d.String())\<close> is \<open>d\<close>.  The configuration writes its
  default durations with \<open>String\<close> and reads them with \<open>ParseDuration\<close>, so the defaults
  mean what they say.
\<close>

section \<open>Duration.String\<close>

text \<open>
  \<open>fmtFrac\<close>: the digits of \<open>v / 10**prec\<close> after the point, written from the right without
  trailing zeros, and the integer part.
\<close>

fun fmt_frac :: "nat \<Rightarrow> bool \<Rightarrow> nat \<Rightarrow> string \<Rightarrow> string \<times> nat" where
  "fmt_frac 0 print v buf = (if print then CHR ''.'' # buf else buf, v)"
| "fmt_frac (Suc n) print v buf =
     fmt_frac n (print \<or> v mod 10 \<noteq> 0) (v div 10)
       (if print \<or> v mod 10 \<noteq> 0 then char_of (48 + v mod 10) # buf else buf)"

text \<open>The whole and the fractional part of \<open>u / 10**prec\<close> with a unit behind them.\<close>

definition fmt_scaled :: "nat \<Rightarrow> nat \<Rightarrow> string \<Rightarrow> string" where
  "fmt_scaled prec u unit =
     (case fmt_frac prec False u [] of (fr, v) \<Rightarrow> nat_digits v @ fr @ unit)"

definition fmt_seconds :: "nat \<Rightarrow> string" where
  "fmt_seconds u =
     (case fmt_frac 9 False u [] of (fr, sec) \<Rightarrow>
        (let mins = sec div 60; hours = mins div 60;
             secs_text = nat_digits (sec mod 60) @ fr @ ''s''
         in if mins = 0 then secs_text
            else if hours = 0 then nat_digits (mins mod 60) @ ''m'' @ secs_text
            else nat_digits hours @ ''h'' @ nat_digits (mins mod 60) @ ''m'' @ secs_text))"

definition Duration_String :: "int \<Rightarrow> string" where
  "Duration_String d =
     (let u = nat \<bar>d\<bar>;
          text =
            (if u = 0 then ''0s''
             else if u < 10 ^ 3 then nat_digits u @ ''ns''
             else if u < 10 ^ 6 then fmt_scaled 3 u [CHR 0xC2, CHR 0xB5, CHR ''s'']
             else if u < 10 ^ 9 then fmt_scaled 6 u ''ms''
             else fmt_seconds u)
      in if d < 0 then CHR ''-'' # text else text)"

section \<open>Digits\<close>

lemma is_digit_char_of [simp]: "d < 10 \<Longrightarrow> is_digit (char_of (48 + d :: nat))"
  by (simp add: is_digit_def)

lemma digit_val_char_of [simp]: "d < 10 \<Longrightarrow> digit_val (char_of (48 + d :: nat)) = d"
  by (simp add: digit_val_def)

lemma nat_digits_are_digits: "c \<in> set (nat_digits n) \<Longrightarrow> is_digit c"
proof (induction n rule: nat_digits.induct)
  case (1 n)
  then show ?case
    by (cases "n < 10") (auto simp: nat_digits.simps [of n])
qed

lemma hd_nat_digits [simp]: "is_digit (hd (nat_digits n))"
  by (rule nat_digits_are_digits [of _ n]) simp

lemma leading_int_digits:
  "n \<le> 2 ^ 63 \<Longrightarrow> leading_int 0 (nat_digits n @ s) = leading_int n s"
proof (induction n arbitrary: s rule: nat_digits.induct)
  case (1 n)
  show ?case
  proof (cases "n < 10")
    case True
    then show ?thesis by (simp add: nat_digits.simps [of n])
  next
    case False
    from "1.prems" have "n div 10 \<le> 2 ^ 63 div 10" by (rule div_le_mono)
    with False "1.IH" [OF False, of "char_of (48 + n mod 10) # s"] "1.prems"
    show ?thesis by (simp add: nat_digits.simps [of n])
  qed
qed

lemma leading_int_stop: "s = [] \<or> \<not> is_digit (hd s) \<Longrightarrow> leading_int x s = Some (x, s)"
  by (cases s) auto

text \<open>The value of a digit string.\<close>

fun digits_value :: "nat \<Rightarrow> string \<Rightarrow> nat" where
  "digits_value x [] = x"
| "digits_value x (c # s) = digits_value (x * 10 + digit_val c) s"

lemma digits_value_shift: "digits_value x ds = x * 10 ^ length ds + digits_value 0 ds"
proof (induction ds arbitrary: x)
  case (Cons c ds)
  show ?case
    using Cons.IH [of "x * 10 + digit_val c"] Cons.IH [of "digit_val c"]
    by (simp add: algebra_simps)
qed simp

lemma digit_val_lt: "is_digit c \<Longrightarrow> digit_val c < 10"
  unfolding is_digit_def digit_val_def by linarith

lemma digits_value_lt: "\<forall>c \<in> set ds. is_digit c \<Longrightarrow> digits_value 0 ds < 10 ^ length ds"
proof (induction ds)
  case (Cons c ds)
  then have "digit_val c < 10" and "digits_value 0 ds < 10 ^ length ds"
    by (simp_all add: digit_val_lt)
  then have "digit_val c * 10 ^ length ds + digits_value 0 ds < (digit_val c + 1) * 10 ^ length ds"
    by simp
  also have "\<dots> \<le> 10 * 10 ^ length ds"
    using \<open>digit_val c < 10\<close> by (intro mult_right_mono) auto
  finally show ?case by (simp add: digits_value_shift [of "digit_val c"])
qed simp

lemma digits_value_snoc: "digits_value x (ds @ [c]) = digits_value x ds * 10 + digit_val c"
  by (induction ds arbitrary: x) auto

section \<open>Exact float64 steps\<close>

lemma round_half_even_exact: "0 < d \<Longrightarrow> round_half_even (q * d) d = q"
  by (simp add: round_half_even_def)

lemma bitlen_mult_le:
  assumes "0 < m" "0 < d" shows "bitlen (int (m * d)) \<le> bitlen (int m) + bitlen (int d)"
proof -
  have "int m < 2 ^ nat (bitlen (int m))" "int d < 2 ^ nat (bitlen (int d))"
    using bitlen_bounds [of "int m"] bitlen_bounds [of "int d"] assms by simp_all
  then have "int m * int d < 2 ^ nat (bitlen (int m)) * 2 ^ nat (bitlen (int d))"
    using assms by (intro mult_strict_mono) auto
  then have "int (m * d) < 2 ^ (nat (bitlen (int m)) + nat (bitlen (int d)))"
    by (simp add: power_add)
  then have "bitlen (int (m * d)) \<le> int (nat (bitlen (int m)) + nat (bitlen (int d)))"
    using assms by (subst bitlen_le_iff_power) (auto simp: nat_add_distrib)
  then show ?thesis by (simp add: bitlen_nonneg)
qed

text \<open>Rounding is exact on integers below \<open>2 ^ 53\<close>.\<close>

lemma f64_round_exact:
  assumes m: "0 < m" "m < 2 ^ 53" and d: "0 < d"
  shows "\<exists>b>0. f64_round (m * d) d = (m * b, b)"
proof -
  define up where "up = 53 + bitlen (int d) - bitlen (int (m * d))"
  have "bitlen (int m) \<le> 53"
    using m by (subst bitlen_le_iff_power) auto
  with bitlen_mult_le [OF m(1) d] have up0: "0 \<le> up" by (simp add: up_def)
  define k where "k = nat up"
  have eq: "f64_round (m * d) d =
    (if d * 2 ^ 53 \<le> m * d * 2 ^ k then (round_half_even (m * d * 2 ^ k) (d * 2) * 2, 2 ^ k)
     else (round_half_even (m * d * 2 ^ k) d, 2 ^ k))"
    unfolding f64_round_def Let_def up_def [symmetric] k_def
    by (simp only: up0 if_True)
  show ?thesis
  proof (cases "d * 2 ^ 53 \<le> m * d * 2 ^ k")
    case True
    then have "2 ^ 53 \<le> m * 2 ^ k" using d by (simp add: mult.commute mult.left_commute)
    with m have "k \<noteq> 0" by (cases k) auto
    then obtain j where j: "k = Suc j" by (cases k) auto
    have split: "m * d * 2 ^ k = (m * 2 ^ j) * (d * 2)" by (simp add: j algebra_simps)
    have "round_half_even (m * d * 2 ^ k) (d * 2) = m * 2 ^ j"
      unfolding split by (rule round_half_even_exact) (use d in simp)
    with eq True show ?thesis by (auto simp: j intro!: exI [of _ "2 ^ k"])
  next
    case False
    have split: "m * d * 2 ^ k = (m * 2 ^ k) * d" by (simp add: algebra_simps)
    have "round_half_even (m * d * 2 ^ k) d = m * 2 ^ k"
      unfolding split by (rule round_half_even_exact) (rule d)
    with eq False show ?thesis by (auto intro!: exI [of _ "2 ^ k"])
  qed
qed

lemma f64_times10_exact:
  assumes "0 < sc" and "sc * 10 < 2 ^ 53" shows "f64_times10 sc = sc * 10"
proof -
  obtain b where "0 < b" "f64_round (sc * 10) 1 = (sc * 10 * b, b)"
    using f64_round_exact [of "sc * 10" 1] assms by auto
  then show ?thesis by (simp add: f64_times10_def)
qed

lemma leading_fraction_digits:
  assumes "\<forall>c \<in> set ds. is_digit c" and "x * 10 ^ length ds + 10 ^ length ds \<le> 10 ^ 18"
    and "0 < sc" "sc * 10 ^ length ds \<le> 10 ^ 15"
    and "s = [] \<or> \<not> is_digit (hd s)"
  shows "leading_fraction x sc False (ds @ s) = (digits_value x ds, sc * 10 ^ length ds, s)"
  using assms(1-4)
proof (induction ds arbitrary: x sc)
  case Nil
  with assms(5) show ?case by (cases s) auto
next
  case (Cons c ds)
  let ?y = "x * 10 + digit_val c"
  have d: "digit_val c < 10" using Cons.prems by (simp add: digit_val_lt)
  have one: "(1::nat) \<le> 10 ^ length ds" by simp
  have "(?y + 1) * 10 ^ length ds \<le> (x * 10 + 10) * 10 ^ length ds"
    using d by (intro mult_right_mono) auto
  also have "\<dots> \<le> 10 ^ 18" using Cons.prems by (simp add: algebra_simps)
  finally have y: "(?y + 1) * 10 ^ length ds \<le> 10 ^ 18" .
  have "?y + 1 \<le> (?y + 1) * 10 ^ length ds" using mult_le_mono2 [OF one, of "?y + 1"] by simp
  with y have "?y + 1 \<le> 10 ^ 18" by linarith
  then have b: "\<not> (2 ^ 63 - 1) div 10 < x" "\<not> 2 ^ 63 < ?y" by simp_all
  have "?y * 10 ^ length ds + 10 ^ length ds \<le> 10 ^ 18"
    using y by (simp only: add_mult_distrib mult_1)
  moreover have "\<forall>c \<in> set ds. is_digit c" "is_digit c" using Cons.prems(1) by simp_all
  moreover have sc: "0 < sc * 10" "sc * 10 * 10 ^ length ds \<le> 10 ^ 15" using Cons.prems(3,4) by simp_all
  moreover have "f64_times10 sc = sc * 10"
  proof (rule f64_times10_exact [OF Cons.prems(3)])
    have "sc * 10 \<le> sc * 10 * 10 ^ length ds" by simp
    also have "\<dots> \<le> 10 ^ 15" by (rule sc(2))
    finally show "sc * 10 < 2 ^ 53" by simp
  qed
  ultimately show ?case
    using Cons.IH [of ?y "f64_times10 sc"]
    by (simp only: append_Cons leading_fraction.simps b if_False not_True_eq_False
        not_False_eq_True digits_value.simps length_Cons power_Suc mult.assoc)
qed

lemma fraction_ns_exact:
  assumes f: "0 < f" "f < 2 ^ 53" and s: "0 < scale" "scale dvd ns" "0 < ns" "ns < 2 ^ 53"
    and p: "f * (ns div scale) < 2 ^ 53"
  shows "fraction_ns f ns scale = f * (ns div scale)"
proof -
  let ?k = "ns div scale"
  from s have ns: "ns = ?k * scale" by simp
  with s have k: "0 < ?k" by (metis gr0I mult_is_0)
  have "?k \<le> ns" by simp
  with s have k53: "?k < 2 ^ 53" by linarith
  obtain b where b: "0 < b" "f64_round f 1 = (f * b, b)"
    using f64_round_exact [of f 1] f by auto
  obtain c where c: "0 < c" "f64_round ns scale = (?k * c, c)"
    using f64_round_exact [OF k k53 s(1)] ns by metis
  have eq: "f * b * (?k * c) = f * ?k * (b * c)" by (simp only: ac_simps)
  have "0 < f * ?k" and "0 < b * c" using f k b c by simp_all
  with p obtain e where e: "0 < e" "f64_round (f * ?k * (b * c)) (b * c) = (f * ?k * e, e)"
    using f64_round_exact by blast
  have "fraction_ns f ns scale = f * ?k * e div e"
    unfolding fraction_ns_def b(2) c(2) by (simp only: prod.case eq e(2) Let_def)
  with e(1) show ?thesis by simp
qed

section \<open>One component\<close>

text \<open>
  \<open>frac_text fr ns r\<close>: \<open>fr\<close> is empty or a point and up to 9 digits, and stands for \<open>r\<close>
  nanoseconds in a unit of \<open>ns\<close> nanoseconds.
\<close>

definition frac_text :: "string \<Rightarrow> nat \<Rightarrow> nat \<Rightarrow> bool" where
  "frac_text fr ns r \<longleftrightarrow>
     (fr = [] \<and> r = 0) \<or>
     (\<exists>ds. fr = CHR ''.'' # ds \<and> ds \<noteq> [] \<and> length ds \<le> 9 \<and> (\<forall>c \<in> set ds. is_digit c) \<and>
           10 ^ length ds dvd ns \<and> r = digits_value 0 ds * (ns div 10 ^ length ds))"

lemma frac_text_Nil [simp]: "frac_text [] ns 0"
  by (simp add: frac_text_def)

definition stops :: "string \<Rightarrow> bool" where
  "stops s \<longleftrightarrow> s = [] \<or> is_digit (hd s)"

lemma point_not_digit [simp]: "\<not> is_digit (CHR ''.'')"
  by (simp add: is_digit_def)

lemma unit_char_not_digit: "unit_char c \<Longrightarrow> \<not> is_digit c"
  by (simp add: unit_char_def)

lemma unit_char_not_point: "unit_char c \<Longrightarrow> c \<noteq> CHR ''.''"
  by (simp add: unit_char_def)

lemma takeWhile_unit:
  assumes "\<forall>c \<in> set u. unit_char c" and "stops s"
  shows "takeWhile unit_char (u @ s) = u" and "dropWhile unit_char (u @ s) = s"
proof -
  have "takeWhile unit_char s = []" "dropWhile unit_char s = s"
    using assms(2) by (cases s; auto simp: stops_def dest: unit_char_not_digit)+
  then show "takeWhile unit_char (u @ s) = u" "dropWhile unit_char (u @ s) = s"
    using assms(1) by (simp_all add: takeWhile_append2 dropWhile_append2)
qed

lemma parse_fraction_text:
  assumes "frac_text fr ns r" and "u \<noteq> []" and "unit_char (hd u)"
  shows "\<exists>f scale. parse_fraction (fr @ u) = (f, scale, u, fr \<noteq> []) \<and>
           0 < scale \<and> scale dvd ns \<and> f < 10 ^ 9 \<and> f * (ns div scale) = r"
proof (cases "fr = []")
  case True
  with assms show ?thesis
    by (auto simp: frac_text_def parse_fraction_def dest: unit_char_not_point)
next
  case False
  with assms(1) obtain ds where ds: "fr = CHR ''.'' # ds" "ds \<noteq> []" "length ds \<le> 9"
      "\<forall>c \<in> set ds. is_digit c" "10 ^ length ds dvd ns"
      "r = digits_value 0 ds * (ns div 10 ^ length ds)"
    by (auto simp: frac_text_def)
  have le: "(10::nat) ^ length ds \<le> 10 ^ 9" using ds(3) by (rule power_increasing) simp
  have "leading_fraction 0 1 False (ds @ u) = (digits_value 0 ds, 10 ^ length ds, u)"
    using leading_fraction_digits [of ds 0 1 u] ds(4) le unit_char_not_digit [OF assms(3)] by simp
  moreover have "digits_value 0 ds < 10 ^ 9" using digits_value_lt [OF ds(4)] le by linarith
  ultimately show ?thesis
    using ds by (auto simp: parse_fraction_def)
qed

lemma component_ns_text:
  assumes "0 < scale" "scale dvd ns" "0 < ns" "ns < 10 ^ 13" "f < 10 ^ 9"
    and "f * (ns div scale) < 10 ^ 13" and "v * ns + f * (ns div scale) \<le> 2 ^ 63"
  shows "component_ns v f scale ns = Some (v * ns + f * (ns div scale))"
proof -
  have "v * ns \<le> 2 ^ 63" using assms(7) by linarith
  then have "v \<le> 2 ^ 63 div ns" using assms(3) by (simp only: less_eq_div_iff_mult_less_eq)
  moreover have "fraction_ns f ns scale = f * (ns div scale)" if "0 < f"
    using that assms by (intro fraction_ns_exact) simp_all
  ultimately show ?thesis using assms(7) by (simp add: component_ns_def Let_def)
qed

lemma parse_component_text:
  assumes u: "unit_ns u = Some ns" "u \<noteq> []" "\<forall>c \<in> set u. unit_char c"
    and ns: "0 < ns" "ns < 10 ^ 13"
    and fr: "frac_text fr ns r" "r < 10 ^ 13" and v: "v \<le> 2 ^ 63" "v * ns + r \<le> 2 ^ 63"
    and s: "stops s"
  shows "parse_component orig (nat_digits v @ fr @ u @ s) = Inr (v * ns + r, s)"
proof -
  have us: "u @ s \<noteq> []" "unit_char (hd (u @ s))" using u by (auto simp: hd_append)
  obtain f scale where f: "parse_fraction (fr @ u @ s) = (f, scale, u @ s, fr \<noteq> [])"
      "0 < scale" "scale dvd ns" "f < 10 ^ 9" "f * (ns div scale) = r"
    using parse_fraction_text [OF fr(1) us] by blast
  have "fr @ u @ s = [] \<or> \<not> is_digit (hd (fr @ u @ s))"
    using fr(1) us(2) by (auto simp: frac_text_def dest: unit_char_not_digit)
  then have li: "leading_int 0 (nat_digits v @ fr @ u @ s) = Some (v, fr @ u @ s)"
    using leading_int_digits [OF v(1)] leading_int_stop by metis
  have "component_ns v f scale ns = Some (v * ns + r)"
    using component_ns_text [of scale ns f v] f ns fr(2) v(2) by simp
  then have "parse_unit orig v f scale (u @ s) = Inr (v * ns + r, s)"
    using u takeWhile_unit [OF u(3) s] by (simp add: parse_unit_def)
  then show ?thesis
    by (simp add: parse_component_def li f(1))
qed

lemma parse_components_text:
  assumes "unit_ns u = Some ns" "u \<noteq> []" "\<forall>c \<in> set u. unit_char c"
    and "0 < ns" "ns < 10 ^ 13"
    and "frac_text fr ns r" "r < 10 ^ 13" "v \<le> 2 ^ 63" "d + (v * ns + r) \<le> 2 ^ 63" "stops s"
  shows "parse_components orig d (nat_digits v @ fr @ u @ s)
       = parse_components orig (d + (v * ns + r)) s"
proof -
  have "parse_component orig (nat_digits v @ fr @ u @ s) = Inr (v * ns + r, s)"
    by (rule parse_component_text) (use assms in simp_all)
  then show ?thesis using assms(9)
    by (subst parse_components.simps) simp
qed

section \<open>The fraction writer\<close>

lemma fmt_frac_True:
  "\<exists>ds. fmt_frac n True v buf = (CHR ''.'' # ds @ buf, v div 10 ^ n) \<and> length ds = n \<and>
        (\<forall>c \<in> set ds. is_digit c) \<and> digits_value 0 ds = v mod 10 ^ n"
proof (induction n arbitrary: v buf)
  case (Suc n)
  obtain ds where ds:
    "fmt_frac n True (v div 10) (char_of (48 + v mod 10) # buf)
       = (CHR ''.'' # ds @ char_of (48 + v mod 10) # buf, v div 10 div 10 ^ n)"
    "length ds = n" "\<forall>c \<in> set ds. is_digit c" "digits_value 0 ds = v div 10 mod 10 ^ n"
    using Suc.IH by blast
  have "digits_value 0 (ds @ [char_of (48 + v mod 10)]) = v mod 10 ^ Suc n"
    using ds(4) by (simp add: digits_value_snoc mod_mult2_eq)
  with ds show ?case
    by (intro exI [of _ "ds @ [char_of (48 + v mod 10)]"]) (auto simp: div_mult2_eq)
qed simp

lemma fmt_frac_False:
  "fmt_frac n False v [] = (fr, v') \<Longrightarrow> v' = v div 10 ^ n \<and>
     (if v mod 10 ^ n = 0 then fr = []
      else (\<exists>ds. fr = CHR ''.'' # ds \<and> ds \<noteq> [] \<and> length ds \<le> n \<and> (\<forall>c \<in> set ds. is_digit c) \<and>
                 digits_value 0 ds * 10 ^ (n - length ds) = v mod 10 ^ n))"
proof (induction n arbitrary: v fr)
  case (Suc n)
  have v: "v mod 10 ^ Suc n = 10 * (v div 10 mod 10 ^ n) + v mod 10"
    by (simp add: mod_mult2_eq)
  show ?case
  proof (cases "v mod 10 = 0")
    case True
    with Suc.prems have "fmt_frac n False (v div 10) [] = (fr, v')" by simp
    from Suc.IH [OF this] True v show ?thesis
      by (auto simp: div_mult2_eq Suc_diff_le split: if_splits)
  next
    case False
    obtain ds where ds:
      "fmt_frac n True (v div 10) [char_of (48 + v mod 10)]
         = (CHR ''.'' # ds @ [char_of (48 + v mod 10)], v div 10 div 10 ^ n)"
      "length ds = n" "\<forall>c \<in> set ds. is_digit c" "digits_value 0 ds = v div 10 mod 10 ^ n"
      using fmt_frac_True by blast
    with False Suc.prems v show ?thesis
      by (auto simp: div_mult2_eq digits_value_snoc
          intro!: exI [of _ "ds @ [char_of (48 + v mod 10)]"])
  qed
qed simp

lemma fmt_frac_text:
  assumes "fmt_frac p False u [] = (fr, v)" and "p \<le> 9"
  shows "v = u div 10 ^ p" and "frac_text fr (10 ^ p) (u mod 10 ^ p)"
proof -
  show "v = u div 10 ^ p" using fmt_frac_False [OF assms(1)] by simp
  show "frac_text fr (10 ^ p) (u mod 10 ^ p)"
  proof (cases "u mod 10 ^ p = 0")
    case True
    then show ?thesis using fmt_frac_False [OF assms(1)] by simp
  next
    case False
    then obtain ds where "fr = CHR ''.'' # ds" "ds \<noteq> []" "length ds \<le> p"
        "\<forall>c \<in> set ds. is_digit c" "digits_value 0 ds * 10 ^ (p - length ds) = u mod 10 ^ p"
      using fmt_frac_False [OF assms(1)] by auto
    moreover from this have "(10::nat) ^ p div 10 ^ length ds = 10 ^ (p - length ds)"
      by (simp add: power_diff)
    ultimately show ?thesis using assms(2)
      by (auto simp: frac_text_def le_imp_power_dvd)
  qed
qed

section \<open>Round trip\<close>

lemma unit_facts:
  "unit_ns ''ns'' = Some 1" "unit_ns [CHR 0xC2, CHR 0xB5, CHR ''s''] = Some (10 ^ 3)"
  "unit_ns ''ms'' = Some (10 ^ 6)" "unit_ns ''s'' = Some (10 ^ 9)"
  "unit_ns ''m'' = Some (60 * 10 ^ 9)" "unit_ns ''h'' = Some (3600 * 10 ^ 9)"
  by (simp_all add: unit_ns_def)

lemma unit_chars:
  "unit_char (CHR ''n'')" "unit_char (CHR ''s'')" "unit_char (CHR ''m'')" "unit_char (CHR ''h'')"
  "unit_char (CHR 0xC2)" "unit_char (CHR 0xB5)"
  by (simp_all add: unit_char_def is_digit_def)

lemma parse_components_Nil [simp]: "parse_components orig d [] = Inr d"
  by (simp add: parse_components.simps)

lemma parse_scaled:
  assumes "p \<le> 9" "unit_ns u = Some (10 ^ p)" "u \<noteq> []" "\<forall>c \<in> set u. unit_char c" "n \<le> 2 ^ 63"
  shows "parse_components orig 0 (fmt_scaled p n u) = Inr n"
proof -
  obtain fr v where fr: "fmt_frac p False n [] = (fr, v)" by fastforce
  note t = fmt_frac_text [OF fr assms(1)]
  have p9: "(10::nat) ^ p \<le> 10 ^ 9" using assms(1) by (rule power_increasing) simp
  have r: "n mod 10 ^ p < 10 ^ 13"
    by (rule less_le_trans [OF _ order_trans [OF p9]]) simp_all
  have v: "v \<le> n" "v * 10 ^ p + n mod 10 ^ p = n"
    using t(1) div_mult_mod_eq [of n "10 ^ p"] by simp_all
  have "parse_components orig 0 (nat_digits v @ fr @ u @ [])
      = parse_components orig (0 + (v * 10 ^ p + n mod 10 ^ p)) []"
    by (rule parse_components_text) (use assms t(2) r v p9 in \<open>simp_all add: stops_def\<close>)
  then show ?thesis by (simp add: fmt_scaled_def fr v(2))
qed

lemma stops_digits [simp]: "stops (nat_digits n @ s)"
  by (simp add: stops_def)

lemma stops_Nil [simp]: "stops []"
  by (simp add: stops_def)

lemma parse_seconds:
  assumes "n \<le> 2 ^ 63" shows "parse_components orig 0 (fmt_seconds n) = Inr n"
proof -
  obtain fr sec where fr: "fmt_frac 9 False n [] = (fr, sec)" by fastforce
  note t = fmt_frac_text [OF fr order_refl]
  define mins where "mins = sec div 60"
  define hours where "hours = mins div 60"
  define secs_text where "secs_text = nat_digits (sec mod 60) @ fr @ ''s'' @ []"
  have n: "n = sec * 10 ^ 9 + n mod 10 ^ 9" using t(1) by simp
  have sec: "sec = mins * 60 + sec mod 60" "mins = hours * 60 + mins mod 60"
    by (simp_all add: mins_def hours_def)
  have hns: "hours * (3600 * 10 ^ 9) + (mins mod 60 * (60 * 10 ^ 9)) + (sec mod 60 * 10 ^ 9 + n mod 10 ^ 9) = n"
  proof -
    define r s m where "r = n mod 10 ^ 9" and "s = sec mod 60" and "m = mins mod 60"
    with n sec have "n = sec * 10 ^ 9 + r" "sec = mins * 60 + s" "mins = hours * 60 + m" by simp_all
    then show ?thesis unfolding r_def [symmetric] s_def [symmetric] m_def [symmetric] by simp
  qed
  have r: "n mod 10 ^ 9 < 10 ^ 13" by (rule less_trans [of _ "10 ^ 9"]) simp_all
  have S: "parse_components orig d secs_text = Inr (d + (sec mod 60 * 10 ^ 9 + n mod 10 ^ 9))"
    if "d + (sec mod 60 * 10 ^ 9 + n mod 10 ^ 9) \<le> 2 ^ 63" for d
    unfolding secs_text_def
    by (subst parse_components_text) (use that t(2) r in \<open>simp_all add: unit_facts unit_chars\<close>)
  have M: "parse_components orig d (nat_digits (mins mod 60) @ [] @ ''m'' @ secs_text)
         = parse_components orig (d + (mins mod 60 * (60 * 10 ^ 9) + 0)) secs_text"
    if "d + (mins mod 60 * (60 * 10 ^ 9) + 0) \<le> 2 ^ 63" for d
    by (rule parse_components_text)
      (use that in \<open>simp_all add: unit_facts unit_chars secs_text_def\<close>)
  have H: "parse_components orig 0 (nat_digits hours @ [] @ ''h'' @ nat_digits (mins mod 60) @ ''m'' @ secs_text)
         = parse_components orig (0 + (hours * (3600 * 10 ^ 9) + 0)) (nat_digits (mins mod 60) @ ''m'' @ secs_text)"
    by (rule parse_components_text)
      (use hns assms in \<open>simp_all add: unit_facts unit_chars\<close>)
  have form: "fmt_seconds n =
     (if mins = 0 then secs_text
      else if hours = 0 then nat_digits (mins mod 60) @ ''m'' @ secs_text
      else nat_digits hours @ ''h'' @ nat_digits (mins mod 60) @ ''m'' @ secs_text)"
    by (simp add: fmt_seconds_def fr mins_def hours_def secs_text_def Let_def)
  have small: "hours * (3600 * 10 ^ 9) + (mins mod 60 * (60 * 10 ^ 9)) + (sec mod 60 * 10 ^ 9 + n mod 10 ^ 9) \<le> 2 ^ 63"
    using hns assms by linarith
  consider "mins = 0" | "mins \<noteq> 0" "hours = 0" | "mins \<noteq> 0" "hours \<noteq> 0" by blast
  then show ?thesis
  proof cases
    case 1
    then have "hours = 0" by (simp add: hours_def)
    with 1 S [of 0] small hns form show ?thesis by simp
  next
    case 2
    with M [of 0] S [of "mins mod 60 * (60 * 10 ^ 9)"] small hns form show ?thesis by simp
  next
    case 3
    with H M [of "hours * (3600 * 10 ^ 9)"] S small hns form show ?thesis by simp
  qed
qed

text \<open>Every text starts with a digit and ends in a unit with an \<open>s\<close>.\<close>

definition duration_shape :: "string \<Rightarrow> bool" where
  "duration_shape t \<longleftrightarrow> t \<noteq> [] \<and> is_digit (hd t) \<and> CHR ''s'' \<in> set t"

lemma duration_shapeI: "CHR ''s'' \<in> set w \<Longrightarrow> duration_shape (nat_digits n @ w)"
  by (auto simp: duration_shape_def)

lemma fmt_scaled_shape: "CHR ''s'' \<in> set u \<Longrightarrow> duration_shape (fmt_scaled p n u)"
  by (auto simp: fmt_scaled_def intro!: duration_shapeI split: prod.splits)

lemma fmt_seconds_shape: "duration_shape (fmt_seconds n)"
  by (auto simp: fmt_seconds_def Let_def intro!: duration_shapeI split: prod.splits)

lemma time_ParseDuration_shape:
  assumes "duration_shape t" and "parse_components t 0 t = Inr n" and "n < 2 ^ 63"
  shows "time_ParseDuration t = Inr (int n)"
proof -
  have "hd t \<noteq> CHR ''-''" "hd t \<noteq> CHR ''+''"
    using assms(1) by (auto simp: duration_shape_def is_digit_def)
  moreover have "t \<noteq> ''0''" using assms(1) by (auto simp: duration_shape_def)
  ultimately show ?thesis using assms by (simp add: time_ParseDuration_def duration_shape_def)
qed

lemma parse_plain_ns:
  assumes "n \<le> 2 ^ 63" shows "parse_components orig 0 (nat_digits n @ ''ns'') = Inr n"
  using parse_components_text [of "''ns''" 1 "[]" 0 n 0 "[]" orig] assms
  by (simp add: unit_facts unit_chars)

text \<open>The text without a sign.\<close>

definition abs_text :: "nat \<Rightarrow> string" where
  "abs_text u = Duration_String (int u)"

lemma Duration_String_abs: "Duration_String d = (if d < 0 then CHR ''-'' # abs_text (nat \<bar>d\<bar>) else abs_text (nat \<bar>d\<bar>))"
  by (simp add: abs_text_def Duration_String_def Let_def)

lemma parse_abs_text:
  assumes "u \<le> 2 ^ 63"
  shows "duration_shape (abs_text u) \<and> parse_components orig 0 (abs_text u) = Inr u"
proof -
  consider "u = 0" | "u \<noteq> 0" "u < 10 ^ 3" | "10 ^ 3 \<le> u" "u < 10 ^ 6"
    | "10 ^ 6 \<le> u" "u < 10 ^ 9" | "10 ^ 9 \<le> u" by linarith
  then show ?thesis
  proof cases
    case 1
    then have "abs_text u = ''0s''" by (simp add: abs_text_def Duration_String_def)
    then show ?thesis using 1
      by (simp add: duration_shape_def parse_components.simps parse_component_def parse_fraction_def
          parse_unit_def component_ns_def unit_ns_def unit_char_def is_digit_def digit_val_def)
  next
    case 2
    then have "abs_text u = nat_digits u @ ''ns''" by (simp add: abs_text_def Duration_String_def)
    with assms show ?thesis by (simp add: parse_plain_ns duration_shapeI)
  next
    case 3
    then have "abs_text u = fmt_scaled 3 u [CHR 0xC2, CHR 0xB5, CHR ''s'']"
      by (simp add: abs_text_def Duration_String_def)
    with assms show ?thesis by (simp add: parse_scaled unit_facts unit_chars fmt_scaled_shape)
  next
    case 4
    then have "abs_text u = fmt_scaled 6 u ''ms''" by (simp add: abs_text_def Duration_String_def)
    with assms show ?thesis by (simp add: parse_scaled unit_facts unit_chars fmt_scaled_shape)
  next
    case 5
    then have "abs_text u = fmt_seconds u" by (simp add: abs_text_def Duration_String_def)
    with assms show ?thesis by (simp add: parse_seconds fmt_seconds_shape)
  qed
qed

lemma time_ParseDuration_negative:
  assumes "duration_shape t" and "parse_components (CHR ''-'' # t) 0 t = Inr n"
  shows "time_ParseDuration (CHR ''-'' # t) = Inr (- int n)"
proof -
  have "t \<noteq> ''0''" "t \<noteq> []" using assms(1) by (auto simp: duration_shape_def)
  with assms(2) show ?thesis by (simp add: time_ParseDuration_def)
qed

theorem ParseDuration_String:
  assumes "- (2 ^ 63) \<le> d" "d < 2 ^ 63"
  shows "time_ParseDuration (Duration_String d) = Inr d"
proof -
  have small: "nat \<bar>d\<bar> \<le> 2 ^ 63" using assms by simp
  show ?thesis
  proof (cases "d < 0")
    case True
    then show ?thesis
      using time_ParseDuration_negative [OF parse_abs_text [OF small, THEN conjunct1]
          parse_abs_text [OF small, THEN conjunct2]] by (simp add: Duration_String_abs)
  next
    case False
    then have "nat \<bar>d\<bar> < 2 ^ 63" using assms by simp
    with False show ?thesis
      using time_ParseDuration_shape [OF parse_abs_text [OF small, THEN conjunct1]
          parse_abs_text [OF small, THEN conjunct2]] by (simp add: Duration_String_abs)
  qed
qed

end
