(* ===== verification/Config.thy ===== *)
theory Config
  imports Externals Keys Duration_Text
begin

text \<open>
  \<open>internal/config/config.go\<close>: the configuration types, the defaults and the normalisation
  \<open>Validate\<close> starts with, and the accessors the node reads.  A pointer field is an option;
  a struct is a record whose fields carry a short prefix of the type's name.
\<close>

section \<open>Types\<close>

record AdminConfig =
  ad_Address :: string

record KboardConfig =
  kb_PublicURL :: string
  kb_NodeID :: string
  kb_NodeSharedSecret :: string
  kb_ConfigEndpoint :: string
  kb_UsersEndpoint :: string
  kb_TrafficEndpoint :: string
  kb_AliveEndpoint :: string
  kb_AccessLogsEndpoint :: string
  kb_ReportInterval :: string

record KLESSConfig =
  k_ClientID :: string
  k_ClientSecret :: string
  k_ServerSigningKey :: string
  k_ServerSigningPrivate :: string
  k_Capabilities :: "string list"
  k_MaxFramePayload :: int
  k_PaddingMin :: int
  k_PaddingMax :: int
  k_HandshakeTimeout :: string

record UpstreamConfig =
  u_Name :: string
  u_Transport :: string
  u_Address :: string
  u_URL :: string
  u_ServerName :: string
  u_CAFile :: string
  u_InsecureSkipVerify :: bool
  u_Headers :: "(string \<times> string) list"
  u_DialTimeout :: string
  u_KLESS :: KLESSConfig

record ServerKLESSClientConfig =
  cc_ClientID :: string
  cc_ClientSecret :: string

record ServerKLESSConfig =
  s_ClientID :: string
  s_ClientSecret :: string
  s_ServerSigningKey :: string
  s_ServerSigningPrivate :: string
  s_Clients :: "ServerKLESSClientConfig list"
  s_Capabilities :: "string list"
  s_MaxFramePayload :: int
  s_PaddingMin :: int
  s_PaddingMax :: int
  s_HandshakeTimeout :: string
  s_MaxHandshakeSkew :: string
  s_UsersRefreshInterval :: string

record InboundConfig =
  i_Name :: string
  i_Listen :: string
  i_Mode :: string
  i_Upstream :: string
  i_MaxConnections :: int
  i_KLESS :: ServerKLESSConfig

record Config =
  c_NodeID :: string
  c_Admin :: AdminConfig
  c_ShutdownGrace :: string
  c_Kboard :: "KboardConfig option"
  c_Upstreams :: "UpstreamConfig list"
  c_Inbounds :: "InboundConfig list"

section \<open>Constants\<close>

definition DefaultAdminAddress :: string where
  "DefaultAdminAddress = ''127.0.0.1:8080''"

definition Second :: int where
  "Second = 10 ^ 9"

definition Minute :: int where
  "Minute = 60 * Second"

definition DefaultDialTimeout :: int where
  "DefaultDialTimeout = 10 * Second"

definition DefaultHandshakeTimeout :: int where
  "DefaultHandshakeTimeout = 10 * Second"

definition DefaultShutdownGrace :: int where
  "DefaultShutdownGrace = 10 * Second"

definition TransportTCP :: string where "TransportTCP = ''tcp''"
definition TransportTLS :: string where "TransportTLS = ''tls''"
definition TransportHTTPUpgrade :: string where "TransportHTTPUpgrade = ''httpupgrade''"
definition TransportHTTPUpdate :: string where "TransportHTTPUpdate = ''httpupdate''"
definition TransportWebSocket :: string where "TransportWebSocket = ''websocket''"
definition TransportHTTPStream :: string where "TransportHTTPStream = ''httpstream''"
definition TransportGRPC :: string where "TransportGRPC = ''grpc''"
definition TransportXHTTP :: string where "TransportXHTTP = ''xhttp''"
definition TransportHTTP3 :: string where "TransportHTTP3 = ''http3''"
definition InboundModeTCP :: string where "InboundModeTCP = ''tcp''"
definition InboundModeKLESSServer :: string where "InboundModeKLESSServer = ''kless-server''"

lemmas transport_defs =
  TransportTCP_def TransportTLS_def TransportHTTPUpgrade_def TransportHTTPUpdate_def
  TransportWebSocket_def TransportHTTPStream_def TransportGRPC_def TransportXHTTP_def
  TransportHTTP3_def

lemmas inbound_mode_defs = InboundModeTCP_def InboundModeKLESSServer_def

lemmas duration_const_defs =
  Second_def Minute_def DefaultDialTimeout_def DefaultHandshakeTimeout_def DefaultShutdownGrace_def

section \<open>Durations and small helpers\<close>

definition parseDuration :: "string \<Rightarrow> int \<Rightarrow> go_error + int" where
  "parseDuration text fallback =
     (if text = [] then Inr fallback
      else (case time_ParseDuration text of
              Inl e \<Rightarrow> Inl e
            | Inr d \<Rightarrow> if d \<le> 0 then Inl (Err ''must be positive'') else Inr d))"

text \<open>The accessors drop the error and return the zero duration with it.\<close>

definition duration_or_zero :: "string \<Rightarrow> int \<Rightarrow> int" where
  "duration_or_zero text fallback =
     (case parseDuration text fallback of Inl _ \<Rightarrow> 0 | Inr d \<Rightarrow> d)"

definition ReportIntervalDuration :: "KboardConfig \<Rightarrow> int" where
  "ReportIntervalDuration k = duration_or_zero (kb_ReportInterval k) (30 * Second)"

definition ShutdownGraceDuration :: "Config \<Rightarrow> int" where
  "ShutdownGraceDuration c = duration_or_zero (c_ShutdownGrace c) DefaultShutdownGrace"

definition DialTimeoutDuration :: "UpstreamConfig \<Rightarrow> int" where
  "DialTimeoutDuration u = duration_or_zero (u_DialTimeout u) DefaultDialTimeout"

definition HandshakeTimeoutDuration :: "ServerKLESSConfig \<Rightarrow> int" where
  "HandshakeTimeoutDuration k = duration_or_zero (s_HandshakeTimeout k) DefaultHandshakeTimeout"

definition MaxHandshakeSkewDuration :: "env \<Rightarrow> ServerKLESSConfig \<Rightarrow> int" where
  "MaxHandshakeSkewDuration E k =
     duration_or_zero (s_MaxHandshakeSkew k) (DefaultHandshakeSkew (kless E))"

definition UsersRefreshIntervalDuration :: "ServerKLESSConfig \<Rightarrow> int" where
  "UsersRefreshIntervalDuration k = duration_or_zero (s_UsersRefreshInterval k) (5 * Minute)"

definition defaultInt :: "int \<Rightarrow> int \<Rightarrow> int" where
  "defaultInt value fallback = (if value = 0 then fallback else value)"

text \<open>\<open>parentDir\<close>: everything before the last slash or backslash, \<open>"."\<close> without one.\<close>

definition is_path_separator :: "char \<Rightarrow> bool" where
  "is_path_separator c \<longleftrightarrow> c = CHR ''/'' \<or> c = CHR 0x5C"

definition parentDir :: "string \<Rightarrow> string" where
  "parentDir path =
     (if list_ex is_path_separator path
      then rev (tl (dropWhile (\<lambda>c. \<not> is_path_separator c) (rev path)))
      else ''.'')"

fun UpstreamByName_loop :: "UpstreamConfig list \<Rightarrow> string \<Rightarrow> UpstreamConfig option" where
  "UpstreamByName_loop [] name = None"
| "UpstreamByName_loop (upstream # rest) name =
     (if u_Name upstream = name then Some upstream else UpstreamByName_loop rest name)"

definition UpstreamByName :: "Config \<Rightarrow> string \<Rightarrow> UpstreamConfig option" where
  "UpstreamByName c name = UpstreamByName_loop (c_Upstreams c) name"

section \<open>Capabilities and transports\<close>

definition capabilityForTransport :: "env \<Rightarrow> string \<Rightarrow> go_error + nat" where
  "capabilityForTransport E transport =
     (if transport = TransportTCP then Inr (CapabilityTCP (kless E))
      else if transport = TransportTLS then Inr (CapabilityTLS (kless E))
      else if transport = TransportHTTPUpgrade \<or> transport = TransportHTTPUpdate
        then Inr (CapabilityHTTPUpgrade (kless E))
      else if transport = TransportWebSocket then Inr (CapabilityWebSocket (kless E))
      else if transport = TransportHTTPStream then Inr (CapabilityHTTP (kless E))
      else if transport = TransportGRPC then Inr (CapabilityGRPC (kless E))
      else if transport = TransportXHTTP then Inr (CapabilityXHTTP (kless E))
      else if transport = TransportHTTP3 then Inr (CapabilityHTTP3 (kless E))
      else Inl (ErrQ ''unsupported capability'' transport))"

fun capabilityMask_loop :: "env \<Rightarrow> nat \<Rightarrow> string list \<Rightarrow> go_error + nat" where
  "capabilityMask_loop E caps [] = Inr caps"
| "capabilityMask_loop E caps (name # names) =
     (case capabilityForTransport E (ToLower E (trim_space name)) of
        Inl e \<Rightarrow> Inl e
      | Inr capability \<Rightarrow> capabilityMask_loop E (or caps capability) names)"

definition capabilityMask :: "env \<Rightarrow> string \<Rightarrow> string list \<Rightarrow> go_error + nat" where
  "capabilityMask E transport names =
     (if names = [] then capabilityForTransport E transport else capabilityMask_loop E 0 names)"

fun capabilityMaskForNames_loop :: "env \<Rightarrow> nat \<Rightarrow> string list \<Rightarrow> go_error + nat" where
  "capabilityMaskForNames_loop E caps [] = Inr caps"
| "capabilityMaskForNames_loop E caps (name0 # names) =
     (let name = ToLower E (trim_space name0)
      in if name = [] then capabilityMaskForNames_loop E caps names
         else if name = ''all'' then
           capabilityMaskForNames_loop E (or caps (CapabilityAll (kless E))) names
         else (case capabilityForTransport E name of
                 Inl e \<Rightarrow> Inl e
               | Inr capability \<Rightarrow> capabilityMaskForNames_loop E (or caps capability) names))"

definition capabilityMaskForNames :: "env \<Rightarrow> string list \<Rightarrow> go_error + nat" where
  "capabilityMaskForNames E names =
     (if names = [] then Inr (CapabilityAll (kless E))
      else (case capabilityMaskForNames_loop E 0 names of
              Inl e \<Rightarrow> Inl e
            | Inr caps \<Rightarrow>
                if caps = 0 then Inl (Err ''at least one capability is required'') else Inr caps))"

definition CapabilityMask :: "env \<Rightarrow> ServerKLESSConfig \<Rightarrow> go_error + nat" where
  "CapabilityMask E k = capabilityMaskForNames E (s_Capabilities k)"

definition isSupportedTransport :: "env \<Rightarrow> string \<Rightarrow> bool" where
  "isSupportedTransport E transport = is_ok (capabilityForTransport E transport)"

definition transportUsesAddress :: "string \<Rightarrow> bool" where
  "transportUsesAddress transport \<longleftrightarrow> transport = TransportTCP \<or> transport = TransportTLS"

definition transportUsesURL :: "string \<Rightarrow> bool" where
  "transportUsesURL transport \<longleftrightarrow> \<not> transportUsesAddress transport"

section \<open>Normalisation\<close>

definition normalizeInboundMode :: "env \<Rightarrow> string \<Rightarrow> string" where
  "normalizeInboundMode E mode =
     (let m = ToLower E (trim_space mode)
      in if m \<in> {[], InboundModeTCP, ''client'', ''client-forward'', ''forward''}
         then InboundModeTCP
         else if m \<in> {InboundModeKLESSServer, ''kless_server'', ''server'', ''relay'', ''server-relay''}
         then InboundModeKLESSServer
         else m)"

definition normalizeEndpoint :: "string \<Rightarrow> string" where
  "normalizeEndpoint endpoint0 =
     (let endpoint = trim_space endpoint0
      in if endpoint = [] then []
         else if prefix ''http://'' endpoint \<or> prefix ''https://'' endpoint then endpoint
         else if \<not> prefix ''/'' endpoint then ''/'' @ endpoint
         else endpoint)"

definition KboardConfig_applyDefaults :: "KboardConfig \<Rightarrow> KboardConfig" where
  "KboardConfig_applyDefaults k = k\<lparr>
     kb_PublicURL := trim_right_slash (trim_space (kb_PublicURL k)),
     kb_NodeID := trim_space (kb_NodeID k),
     kb_NodeSharedSecret := trim_space (kb_NodeSharedSecret k),
     kb_ConfigEndpoint := normalizeEndpoint (kb_ConfigEndpoint k),
     kb_UsersEndpoint := normalizeEndpoint (kb_UsersEndpoint k),
     kb_TrafficEndpoint := normalizeEndpoint (kb_TrafficEndpoint k),
     kb_AliveEndpoint := normalizeEndpoint (kb_AliveEndpoint k),
     kb_AccessLogsEndpoint := normalizeEndpoint (kb_AccessLogsEndpoint k),
     kb_ReportInterval := (if kb_ReportInterval k = [] then ''30s'' else kb_ReportInterval k)\<rparr>"

definition UpstreamConfig_applyDefaults :: "env \<Rightarrow> UpstreamConfig \<Rightarrow> UpstreamConfig" where
  "UpstreamConfig_applyDefaults E u = u\<lparr>
     u_Name := trim_space (u_Name u),
     u_Transport := ToLower E (trim_space (u_Transport u)),
     u_Address := trim_space (u_Address u),
     u_URL := trim_space (u_URL u),
     u_ServerName := trim_space (u_ServerName u),
     u_CAFile := trim_space (u_CAFile u),
     u_DialTimeout :=
       (if u_DialTimeout u = [] then Duration_String DefaultDialTimeout else u_DialTimeout u),
     u_KLESS := (u_KLESS u)\<lparr> k_HandshakeTimeout :=
       (if k_HandshakeTimeout (u_KLESS u) = [] then Duration_String DefaultHandshakeTimeout
        else k_HandshakeTimeout (u_KLESS u))\<rparr>\<rparr>"

definition ServerKLESSConfig_applyDefaults :: "env \<Rightarrow> ServerKLESSConfig \<Rightarrow> ServerKLESSConfig" where
  "ServerKLESSConfig_applyDefaults E k = k\<lparr>
     s_ClientID := trim_space (s_ClientID k),
     s_ClientSecret := trim_space (s_ClientSecret k),
     s_ServerSigningKey := trim_space (s_ServerSigningKey k),
     s_ServerSigningPrivate := trim_space (s_ServerSigningPrivate k),
     s_HandshakeTimeout :=
       (if s_HandshakeTimeout k = [] then Duration_String DefaultHandshakeTimeout
        else s_HandshakeTimeout k),
     s_MaxHandshakeSkew :=
       (if s_MaxHandshakeSkew k = [] then Duration_String (DefaultHandshakeSkew (kless E))
        else s_MaxHandshakeSkew k),
     s_UsersRefreshInterval :=
       (if s_UsersRefreshInterval k = [] then Duration_String (5 * Minute)
        else s_UsersRefreshInterval k)\<rparr>"

definition InboundConfig_applyDefaults :: "env \<Rightarrow> InboundConfig \<Rightarrow> InboundConfig" where
  "InboundConfig_applyDefaults E i = i\<lparr>
     i_Name := trim_space (i_Name i),
     i_Listen := trim_space (i_Listen i),
     i_Mode := normalizeInboundMode E (i_Mode i),
     i_Upstream := trim_space (i_Upstream i),
     i_KLESS := ServerKLESSConfig_applyDefaults E (i_KLESS i)\<rparr>"

definition Config_applyDefaults :: "env \<Rightarrow> Config \<Rightarrow> Config" where
  "Config_applyDefaults E c = c\<lparr>
     c_NodeID := trim_space (c_NodeID c),
     c_Admin := (if ad_Address (c_Admin c) = []
                 then (c_Admin c)\<lparr>ad_Address := DefaultAdminAddress\<rparr> else c_Admin c),
     c_ShutdownGrace := (if c_ShutdownGrace c = [] then Duration_String DefaultShutdownGrace
                         else c_ShutdownGrace c),
     c_Upstreams := map (UpstreamConfig_applyDefaults E) (c_Upstreams c),
     c_Inbounds := map (InboundConfig_applyDefaults E) (c_Inbounds c),
     c_Kboard := map_option KboardConfig_applyDefaults (c_Kboard c)\<rparr>"

end
