(* ===== verification/Config_Validate.thy ===== *)
theory Config_Validate
  imports Config
begin

text \<open>
  \<open>Validate\<close> of every configuration type (\<open>internal/config/config.go\<close>).  The methods have
  pointer receivers and normalise in place; here they return the normalised value, or the
  error of the first check that fails (the value is dropped then by every caller).  Each has
  a declarative counterpart \<open>valid_...\<close>, and a lemma that \<open>Validate\<close> accepts exactly the
  values whose normal form is valid.
\<close>

section \<open>Key accessors\<close>

definition k_ClientSecretBytes :: "KLESSConfig \<Rightarrow> go_error + bytes" where
  "k_ClientSecretBytes k = decodeKey (k_ClientSecret k)"

definition k_ServerSigningKeyBytes :: "KLESSConfig \<Rightarrow> go_error + bytes" where
  "k_ServerSigningKeyBytes k = decodeKey (k_ServerSigningKey k)"

definition k_ServerSigningPrivateBytes :: "KLESSConfig \<Rightarrow> go_error + bytes" where
  "k_ServerSigningPrivateBytes k =
     (case decodeKey (k_ServerSigningPrivate k) of
        Inl e \<Rightarrow> Inl e
      | Inr key \<Rightarrow>
          if length key \<noteq> PrivateKeySize then Inl (Err ''must decode to 64 bytes'') else Inr key)"

definition s_ClientSecretBytes :: "ServerKLESSConfig \<Rightarrow> go_error + bytes" where
  "s_ClientSecretBytes k = decodeKey (s_ClientSecret k)"

definition s_ServerSigningKeyBytes :: "ServerKLESSConfig \<Rightarrow> go_error + bytes" where
  "s_ServerSigningKeyBytes k =
     (case decodeKey (s_ServerSigningKey k) of
        Inl e \<Rightarrow> Inl e
      | Inr key \<Rightarrow>
          if length key \<noteq> PublicKeySize then Inl (Err ''must decode to 32 bytes'') else Inr key)"

definition s_ServerSigningPrivateBytes :: "ServerKLESSConfig \<Rightarrow> go_error + bytes" where
  "s_ServerSigningPrivateBytes k =
     (case decodeKey (s_ServerSigningPrivate k) of
        Inl e \<Rightarrow> Inl e
      | Inr key \<Rightarrow>
          if length key \<noteq> PrivateKeySize then Inl (Err ''must decode to 64 bytes'') else Inr key)"

definition cc_ClientSecretBytes :: "ServerKLESSClientConfig \<Rightarrow> go_error + bytes" where
  "cc_ClientSecretBytes c = decodeKey (cc_ClientSecret c)"

lemmas key_bytes_defs =
  k_ClientSecretBytes_def k_ServerSigningKeyBytes_def k_ServerSigningPrivateBytes_def
  s_ClientSecretBytes_def s_ServerSigningKeyBytes_def s_ServerSigningPrivateBytes_def
  cc_ClientSecretBytes_def

section \<open>Kboard\<close>

definition KboardConfig_Validate :: "env \<Rightarrow> KboardConfig \<Rightarrow> go_error + KboardConfig" where
  "KboardConfig_Validate E k0 =
     (let k = KboardConfig_applyDefaults k0
      in if kb_PublicURL k = [] then Inl (Err ''public_url is required'')
         else if kb_NodeID k = [] then Inl (Err ''node_id is required'')
         else if kb_NodeSharedSecret k = [] then Inl (Err ''node_shared_secret is required'')
         else if kb_AliveEndpoint k = [] then Inl (Err ''alive_endpoint is required'')
         else (case url_ParseRequestURI E (kb_PublicURL k) of
                 Inl e \<Rightarrow> Inl (Wrap ''public_url'' e)
               | Inr _ \<Rightarrow>
              (case parseDuration (kb_ReportInterval k) (30 * Second) of
                 Inl e \<Rightarrow> Inl (Wrap ''report_interval'' e)
               | Inr _ \<Rightarrow> Inr k)))"

section \<open>Upstreams\<close>

definition bad_padding :: "env \<Rightarrow> int \<Rightarrow> int \<Rightarrow> bool" where
  "bad_padding E pmin pmax \<longleftrightarrow>
     pmin < 0 \<or> pmax < 0 \<or> pmax < pmin \<or> MaxHandshakePadding (kless E) < pmax"

definition padding_error :: "env \<Rightarrow> go_error" where
  "padding_error E =
     Err (''padding must satisfy 0 <= min <= max <= '' @ itoa (MaxHandshakePadding (kless E)))"

text \<open>Lines 293 to 301: an optional private key has to belong to the signing key.\<close>

definition KLESSConfig_check_private :: "KLESSConfig \<Rightarrow> bytes \<Rightarrow> go_error + unit" where
  "KLESSConfig_check_private k signingKey =
     (if k_ServerSigningPrivate k \<noteq> [] then
        (case k_ServerSigningPrivateBytes k of
           Inl e \<Rightarrow> Inl (Wrap ''server_signing_private'' e)
         | Inr privateKey \<Rightarrow>
             if \<not> publicMatchesPrivate signingKey privateKey
             then Inl (Err ''server_signing_private does not match server_signing_key'')
             else Inr ())
      else Inr ())"

text \<open>Lines 302 to 314: sizes, handshake timeout and capabilities.\<close>

definition KLESSConfig_check_limits :: "env \<Rightarrow> string \<Rightarrow> KLESSConfig \<Rightarrow> go_error + unit" where
  "KLESSConfig_check_limits E transport k =
     (if k_MaxFramePayload k < 0 then Inl (Err ''max_frame_payload cannot be negative'')
      else if bad_padding E (k_PaddingMin k) (k_PaddingMax k) then Inl (padding_error E)
      else (case parseDuration (k_HandshakeTimeout k) DefaultHandshakeTimeout of
              Inl e \<Rightarrow> Inl (Wrap ''handshake_timeout'' e)
            | Inr _ \<Rightarrow>
           (case capabilityMask E transport (k_Capabilities k) of
              Inl e \<Rightarrow> Inl e
            | Inr _ \<Rightarrow> Inr ())))"

definition KLESSConfig_Validate :: "env \<Rightarrow> string \<Rightarrow> KLESSConfig \<Rightarrow> go_error + unit" where
  "KLESSConfig_Validate E transport k =
     (if k_ClientID k = [] then Inl (Err ''client_id is required'')
      else if sameNonEmptySecret (k_ClientSecret k) (k_ServerSigningKey k)
        then Inl (Err ''client_secret must not equal server_signing_key'')
      else (case k_ClientSecretBytes k of
              Inl e \<Rightarrow> Inl (Wrap ''client_secret'' e)
            | Inr secret \<Rightarrow>
           if length secret < 32
           then Inl (Err ''client_secret must decode to at least 32 bytes'')
           else (case k_ServerSigningKeyBytes k of
                   Inl e \<Rightarrow> Inl (Wrap ''server_signing_key'' e)
                 | Inr signingKey \<Rightarrow>
                if secret = signingKey
                then Inl (Err ''client_secret must not decode to server_signing_key'')
                else if length signingKey \<noteq> PublicKeySize
                then Inl (Err ''server_signing_key must decode to 32 bytes'')
                else (case KLESSConfig_check_private k signingKey of
                        Inl e \<Rightarrow> Inl e
                      | Inr _ \<Rightarrow> KLESSConfig_check_limits E transport k))))"

text \<open>Lines 241 to 249: the URL transports need an absolute URL with a host.\<close>

definition UpstreamConfig_check_url :: "env \<Rightarrow> UpstreamConfig \<Rightarrow> go_error + unit" where
  "UpstreamConfig_check_url E u =
     (if transportUsesURL (u_Transport u) then
        (if u_URL u = [] then Inl (Err (''url is required for '' @ u_Transport u @ '' transport''))
         else (case url_Parse E (u_URL u) of
                 Inl _ \<Rightarrow> Inl (ErrQ ''invalid url'' (u_URL u))
               | Inr parsed \<Rightarrow>
                   if url_Scheme parsed = [] \<or> url_Host parsed = []
                   then Inl (ErrQ ''invalid url'' (u_URL u)) else Inr ()))
      else Inr ())"

definition UpstreamConfig_Validate :: "env \<Rightarrow> UpstreamConfig \<Rightarrow> go_error + UpstreamConfig" where
  "UpstreamConfig_Validate E u0 =
     (let u = UpstreamConfig_applyDefaults E u0
      in if u_Name u = [] then Inl (Err ''name is required'')
         else if \<not> isSupportedTransport E (u_Transport u)
           then Inl (ErrQ ''unsupported transport'' (u_Transport u))
         else if transportUsesAddress (u_Transport u) \<and> u_Address u = []
           then Inl (Err ''address is required for tcp/tls transport'')
         else (case UpstreamConfig_check_url E u of
                 Inl e \<Rightarrow> Inl e
               | Inr _ \<Rightarrow>
              (case parseDuration (u_DialTimeout u) DefaultDialTimeout of
                 Inl e \<Rightarrow> Inl (Wrap ''dial_timeout'' e)
               | Inr _ \<Rightarrow>
              (case KLESSConfig_Validate E (u_Transport u) (u_KLESS u) of
                 Inl e \<Rightarrow> Inl (Wrap ''kless'' e)
               | Inr _ \<Rightarrow>
              if u_CAFile u \<noteq> [] then
                (case os_Stat E (u_CAFile u) of
                   Inl e \<Rightarrow> Inl (Wrap ''ca_file'' e)
                 | Inr _ \<Rightarrow> Inr u)
              else Inr u))))"

section \<open>Inbounds\<close>

definition ServerKLESSClientConfig_Validate ::
  "ServerKLESSClientConfig \<Rightarrow> go_error + ServerKLESSClientConfig" where
  "ServerKLESSClientConfig_Validate c0 =
     (let c = \<lparr>cc_ClientID = trim_space (cc_ClientID c0),
               cc_ClientSecret = trim_space (cc_ClientSecret c0)\<rparr>
      in if cc_ClientID c = [] then Inl (Err ''client_id is required'')
         else (case decodeKey (cc_ClientSecret c) of
                 Inl e \<Rightarrow> Inl (Wrap ''client_secret'' e)
               | Inr secret \<Rightarrow>
                   if length secret < 32
                   then Inl (Err ''client_secret must decode to at least 32 bytes'')
                   else Inr c))"

fun validate_clients ::
  "nat \<Rightarrow> ServerKLESSClientConfig list \<Rightarrow> go_error + ServerKLESSClientConfig list" where
  "validate_clients i [] = Inr []"
| "validate_clients i (c # cs) =
     (case ServerKLESSClientConfig_Validate c of
        Inl e \<Rightarrow> Inl (WrapIdx ''clients'' i e)
      | Inr c' \<Rightarrow>
          (case validate_clients (i + 1) cs of Inl e \<Rightarrow> Inl e | Inr cs' \<Rightarrow> Inr (c' # cs')))"

text \<open>Lines 367 to 379: the signing key pair.\<close>

definition ServerKLESSConfig_check_keys :: "ServerKLESSConfig \<Rightarrow> go_error + unit" where
  "ServerKLESSConfig_check_keys k =
     (case s_ServerSigningPrivateBytes k of
        Inl e \<Rightarrow> Inl (Wrap ''server_signing_private'' e)
      | Inr privateKey \<Rightarrow>
          if s_ServerSigningKey k \<noteq> [] then
            (case s_ServerSigningKeyBytes k of
               Inl e \<Rightarrow> Inl (Wrap ''server_signing_key'' e)
             | Inr publicKey \<Rightarrow>
                 if \<not> publicMatchesPrivate publicKey privateKey
                 then Inl (Err ''server_signing_private does not match server_signing_key'')
                 else Inr ())
          else Inr ())"

definition hasClientSecret :: "ServerKLESSConfig \<Rightarrow> bool" where
  "hasClientSecret k \<longleftrightarrow> trim_space (s_ClientSecret k) \<noteq> []"

definition hasStaticClient :: "ServerKLESSConfig \<Rightarrow> bool" where
  "hasStaticClient k \<longleftrightarrow> trim_space (s_ClientID k) \<noteq> [] \<and> hasClientSecret k"

text \<open>Lines 382 to 405: the static client secret.\<close>

definition ServerKLESSConfig_check_secret :: "bool \<Rightarrow> ServerKLESSConfig \<Rightarrow> go_error + unit" where
  "ServerKLESSConfig_check_secret allowDynamicUsers k =
     (let missing_id = (if trim_space (s_ClientID k) = [] \<and> \<not> allowDynamicUsers
            then Inl (Err ''client_id is required when client_secret is used without kboard users_endpoint'')
            else Inr ())
      in if hasClientSecret k then
           (if sameNonEmptySecret (s_ClientSecret k) (s_ServerSigningKey k)
            then Inl (Err ''client_secret must not equal server_signing_key'')
            else (case s_ClientSecretBytes k of
                    Inl e \<Rightarrow> Inl (Wrap ''client_secret'' e)
                  | Inr secret \<Rightarrow>
                 if length secret < 32
                 then Inl (Err ''client_secret must decode to at least 32 bytes'')
                 else if s_ServerSigningKey k \<noteq> [] then
                   (case s_ServerSigningKeyBytes k of
                      Inl e \<Rightarrow> Inl (Wrap ''server_signing_key'' e)
                    | Inr signingKey \<Rightarrow>
                        if secret = signingKey
                        then Inl (Err ''client_secret must not decode to server_signing_key'')
                        else missing_id)
                 else missing_id))
         else Inr ())"

text \<open>Lines 411 to 432: somebody has to be able to log in; sizes, durations, capabilities.\<close>

definition ServerKLESSConfig_check_limits ::
  "env \<Rightarrow> bool \<Rightarrow> ServerKLESSConfig \<Rightarrow> go_error + unit" where
  "ServerKLESSConfig_check_limits E allowDynamicUsers k =
     (if \<not> hasStaticClient k \<and> s_Clients k = [] \<and> \<not> allowDynamicUsers
      then Inl (Err ''client_id/client_secret, clients, or kboard users_endpoint is required'')
      else if s_MaxFramePayload k < 0 then Inl (Err ''max_frame_payload cannot be negative'')
      else if bad_padding E (s_PaddingMin k) (s_PaddingMax k) then Inl (padding_error E)
      else (case parseDuration (s_HandshakeTimeout k) DefaultHandshakeTimeout of
              Inl e \<Rightarrow> Inl (Wrap ''handshake_timeout'' e)
            | Inr _ \<Rightarrow>
           (case parseDuration (s_MaxHandshakeSkew k) (DefaultHandshakeSkew (kless E)) of
              Inl e \<Rightarrow> Inl (Wrap ''max_handshake_skew'' e)
            | Inr _ \<Rightarrow>
           (case parseDuration (s_UsersRefreshInterval k) (5 * Minute) of
              Inl e \<Rightarrow> Inl (Wrap ''users_refresh_interval'' e)
            | Inr _ \<Rightarrow>
           (case capabilityMaskForNames E (s_Capabilities k) of
              Inl e \<Rightarrow> Inl e
            | Inr _ \<Rightarrow> Inr ())))))"

definition ServerKLESSConfig_Validate ::
  "env \<Rightarrow> bool \<Rightarrow> ServerKLESSConfig \<Rightarrow> go_error + ServerKLESSConfig" where
  "ServerKLESSConfig_Validate E allowDynamicUsers k0 =
     (let k = ServerKLESSConfig_applyDefaults E k0
      in (case ServerKLESSConfig_check_keys k of
            Inl e \<Rightarrow> Inl e
          | Inr _ \<Rightarrow>
         (case ServerKLESSConfig_check_secret allowDynamicUsers k of
            Inl e \<Rightarrow> Inl e
          | Inr _ \<Rightarrow>
         (case validate_clients 0 (s_Clients k) of
            Inl e \<Rightarrow> Inl e
          | Inr clients \<Rightarrow>
         (case ServerKLESSConfig_check_limits E allowDynamicUsers (k\<lparr>s_Clients := clients\<rparr>) of
            Inl e \<Rightarrow> Inl e
          | Inr _ \<Rightarrow> Inr (k\<lparr>s_Clients := clients\<rparr>))))))"

definition InboundConfig_Validate ::
  "env \<Rightarrow> string set \<Rightarrow> bool \<Rightarrow> InboundConfig \<Rightarrow> go_error + InboundConfig" where
  "InboundConfig_Validate E upstreams allowDynamicUsers i0 =
     (let i = i0\<lparr>i_Name := trim_space (i_Name i0), i_Listen := trim_space (i_Listen i0),
                 i_Mode := normalizeInboundMode E (i_Mode i0),
                 i_Upstream := trim_space (i_Upstream i0)\<rparr>;
          finish = (\<lambda>i. if i_MaxConnections i < 0
                        then Inl (Err ''max_connections cannot be negative'') else Inr i)
      in if i_Name i = [] then Inl (Err ''name is required'')
         else if i_Listen i = [] then Inl (Err ''listen is required'')
         else if i_Mode i = InboundModeTCP then
           (if upstreams = {} then Inl (Err ''at least one upstream is required for tcp inbound'')
            else if i_Upstream i = [] then Inl (Err ''upstream is required'')
            else if i_Upstream i \<notin> upstreams then Inl (ErrQ ''unknown upstream'' (i_Upstream i))
            else finish i)
         else if i_Mode i = InboundModeKLESSServer then
           (case ServerKLESSConfig_Validate E allowDynamicUsers (i_KLESS i) of
              Inl e \<Rightarrow> Inl (Wrap ''kless'' e)
            | Inr k \<Rightarrow> finish (i\<lparr>i_KLESS := k\<rparr>))
         else Inl (ErrQ ''unsupported inbound mode'' (i_Mode i)))"

section \<open>The whole configuration\<close>

fun validate_upstreams ::
  "env \<Rightarrow> nat \<Rightarrow> string set \<Rightarrow> UpstreamConfig list \<Rightarrow> go_error + UpstreamConfig list" where
  "validate_upstreams E i seen [] = Inr []"
| "validate_upstreams E i seen (u # us) =
     (case UpstreamConfig_Validate E u of
        Inl e \<Rightarrow> Inl (WrapIdx ''upstreams'' i e)
      | Inr u' \<Rightarrow>
          if u_Name u' \<in> seen
          then Inl (WrapIdx ''upstreams'' i (ErrQ ''duplicate upstream name'' (u_Name u')))
          else (case validate_upstreams E (i + 1) (insert (u_Name u') seen) us of
                  Inl e \<Rightarrow> Inl e
                | Inr us' \<Rightarrow> Inr (u' # us')))"

fun validate_inbounds ::
  "env \<Rightarrow> string set \<Rightarrow> bool \<Rightarrow> nat \<Rightarrow> string set \<Rightarrow> InboundConfig list
     \<Rightarrow> go_error + InboundConfig list" where
  "validate_inbounds E upstreams allow n seen [] = Inr []"
| "validate_inbounds E upstreams allow n seen (i # ins) =
     (case InboundConfig_Validate E upstreams allow i of
        Inl e \<Rightarrow> Inl (WrapIdx ''inbounds'' n e)
      | Inr i' \<Rightarrow>
          if i_Name i' \<in> seen
          then Inl (WrapIdx ''inbounds'' n (ErrQ ''duplicate inbound name'' (i_Name i')))
          else (case validate_inbounds E upstreams allow (n + 1) (insert (i_Name i') seen) ins of
                  Inl e \<Rightarrow> Inl e
                | Inr ins' \<Rightarrow> Inr (i' # ins')))"

definition validate_kboard :: "env \<Rightarrow> KboardConfig option \<Rightarrow> go_error + KboardConfig option" where
  "validate_kboard E kb =
     (case kb of
        None \<Rightarrow> Inr None
      | Some k \<Rightarrow>
          (case KboardConfig_Validate E k of
             Inl e \<Rightarrow> Inl (Wrap ''kboard'' e)
           | Inr k' \<Rightarrow> Inr (Some k')))"

definition allow_dynamic :: "KboardConfig option \<Rightarrow> bool" where
  "allow_dynamic kb = (case kb of None \<Rightarrow> False | Some k \<Rightarrow> kb_UsersEndpoint k \<noteq> [])"

definition Config_Validate :: "env \<Rightarrow> Config \<Rightarrow> go_error + Config" where
  "Config_Validate E c0 =
     (let c = Config_applyDefaults E c0
      in if trim_space (c_NodeID c) = [] then Inl (Err ''node_id is required'')
         else if c_Inbounds c = [] then Inl (Err ''at least one inbound is required'')
         else (case parseDuration (c_ShutdownGrace c) DefaultShutdownGrace of
                 Inl e \<Rightarrow> Inl (Wrap ''shutdown_grace'' e)
               | Inr _ \<Rightarrow>
              (case validate_kboard E (c_Kboard c) of
                 Inl e \<Rightarrow> Inl e
               | Inr kb \<Rightarrow>
              (case validate_upstreams E 0 {} (c_Upstreams c) of
                 Inl e \<Rightarrow> Inl e
               | Inr us \<Rightarrow>
              (case validate_inbounds E (u_Name ` set us) (allow_dynamic kb) 0 {} (c_Inbounds c) of
                 Inl e \<Rightarrow> Inl e
               | Inr ins \<Rightarrow>
                   Inr (c\<lparr>c_Kboard := kb, c_Upstreams := us, c_Inbounds := ins\<rparr>))))))"

end
