(* ===== verification/Config_Spec.thy ===== *)
theory Config_Spec
  imports Config_Validate
begin

text \<open>
  What a valid configuration is, stated without the order of the checks, and the proofs that
  \<open>Validate\<close> accepts exactly the configurations whose normal form is valid and returns that
  normal form.
\<close>

section \<open>Declarative validity\<close>

definition good_duration :: "string \<Rightarrow> bool" where
  "good_duration text \<longleftrightarrow>
     text = [] \<or> (case time_ParseDuration text of Inl _ \<Rightarrow> False | Inr d \<Rightarrow> 0 < d)"

definition good_secret :: "string \<Rightarrow> bool" where
  "good_secret text \<longleftrightarrow> (case decodeKey text of Inl _ \<Rightarrow> False | Inr s \<Rightarrow> 32 \<le> length s)"

text \<open>A decoded key pair: 64 bytes of private key whose second half is the public key.\<close>

definition good_key_pair :: "string \<Rightarrow> string \<Rightarrow> bool" where
  "good_key_pair public private \<longleftrightarrow>
     (\<exists>priv. decodeKey private = Inr priv \<and> length priv = 64 \<and>
             decodeKey public = Inr (drop 32 priv))"

definition good_private :: "string \<Rightarrow> bool" where
  "good_private private \<longleftrightarrow>
     (case decodeKey private of Inl _ \<Rightarrow> False | Inr priv \<Rightarrow> length priv = 64)"

text \<open>A client secret and a server key are different things, as text and decoded.\<close>

definition unmixed :: "string \<Rightarrow> string \<Rightarrow> bool" where
  "unmixed secret key \<longleftrightarrow> trim_space secret \<noteq> trim_space key \<and> decodeKey secret \<noteq> decodeKey key"

definition valid_KboardConfig :: "env \<Rightarrow> KboardConfig \<Rightarrow> bool" where
  "valid_KboardConfig E k \<longleftrightarrow>
     kb_PublicURL k \<noteq> [] \<and> kb_NodeID k \<noteq> [] \<and> kb_NodeSharedSecret k \<noteq> [] \<and>
     kb_AliveEndpoint k \<noteq> [] \<and> is_ok (url_ParseRequestURI E (kb_PublicURL k)) \<and>
     good_duration (kb_ReportInterval k)"

definition good_padding :: "env \<Rightarrow> int \<Rightarrow> int \<Rightarrow> bool" where
  "good_padding E lo hi \<longleftrightarrow> 0 \<le> lo \<and> lo \<le> hi \<and> hi \<le> MaxHandshakePadding (kless E)"

definition valid_KLESSConfig :: "env \<Rightarrow> string \<Rightarrow> KLESSConfig \<Rightarrow> bool" where
  "valid_KLESSConfig E transport k \<longleftrightarrow>
     k_ClientID k \<noteq> [] \<and> good_secret (k_ClientSecret k) \<and>
     (\<exists>key. decodeKey (k_ServerSigningKey k) = Inr key \<and> length key = 32) \<and>
     unmixed (k_ClientSecret k) (k_ServerSigningKey k) \<and>
     (k_ServerSigningPrivate k \<noteq> [] \<longrightarrow>
        good_key_pair (k_ServerSigningKey k) (k_ServerSigningPrivate k)) \<and>
     0 \<le> k_MaxFramePayload k \<and> good_padding E (k_PaddingMin k) (k_PaddingMax k) \<and>
     good_duration (k_HandshakeTimeout k) \<and>
     is_ok (capabilityMask E transport (k_Capabilities k))"

definition supported_transports :: "string set" where
  "supported_transports =
     {TransportTCP, TransportTLS, TransportHTTPUpgrade, TransportHTTPUpdate, TransportWebSocket,
      TransportHTTPStream, TransportGRPC, TransportXHTTP, TransportHTTP3}"

definition good_url :: "env \<Rightarrow> string \<Rightarrow> bool" where
  "good_url E text \<longleftrightarrow> text \<noteq> [] \<and>
     (case url_Parse E text of
        Inl _ \<Rightarrow> False
      | Inr parsed \<Rightarrow> url_Scheme parsed \<noteq> [] \<and> url_Host parsed \<noteq> [])"

definition valid_UpstreamConfig :: "env \<Rightarrow> UpstreamConfig \<Rightarrow> bool" where
  "valid_UpstreamConfig E u \<longleftrightarrow>
     u_Name u \<noteq> [] \<and> u_Transport u \<in> supported_transports \<and>
     (if transportUsesAddress (u_Transport u) then u_Address u \<noteq> [] else good_url E (u_URL u)) \<and>
     good_duration (u_DialTimeout u) \<and> valid_KLESSConfig E (u_Transport u) (u_KLESS u) \<and>
     (u_CAFile u \<noteq> [] \<longrightarrow> is_ok (os_Stat E (u_CAFile u)))"

definition valid_client :: "ServerKLESSClientConfig \<Rightarrow> bool" where
  "valid_client c \<longleftrightarrow> cc_ClientID c \<noteq> [] \<and> good_secret (cc_ClientSecret c)"

definition valid_ServerKLESSConfig :: "env \<Rightarrow> bool \<Rightarrow> ServerKLESSConfig \<Rightarrow> bool" where
  "valid_ServerKLESSConfig E allow k \<longleftrightarrow>
     good_private (s_ServerSigningPrivate k) \<and>
     (s_ServerSigningKey k \<noteq> [] \<longrightarrow>
        good_key_pair (s_ServerSigningKey k) (s_ServerSigningPrivate k)) \<and>
     (s_ClientSecret k \<noteq> [] \<longrightarrow>
        good_secret (s_ClientSecret k) \<and>
        (s_ServerSigningKey k \<noteq> [] \<longrightarrow> unmixed (s_ClientSecret k) (s_ServerSigningKey k)) \<and>
        (s_ClientID k \<noteq> [] \<or> allow)) \<and>
     (\<forall>c \<in> set (s_Clients k). valid_client c) \<and>
     ((s_ClientID k \<noteq> [] \<and> s_ClientSecret k \<noteq> []) \<or> s_Clients k \<noteq> [] \<or> allow) \<and>
     0 \<le> s_MaxFramePayload k \<and> good_padding E (s_PaddingMin k) (s_PaddingMax k) \<and>
     good_duration (s_HandshakeTimeout k) \<and> good_duration (s_MaxHandshakeSkew k) \<and>
     good_duration (s_UsersRefreshInterval k) \<and> is_ok (CapabilityMask E k)"

definition valid_InboundConfig :: "env \<Rightarrow> string set \<Rightarrow> bool \<Rightarrow> InboundConfig \<Rightarrow> bool" where
  "valid_InboundConfig E upstreams allow i \<longleftrightarrow>
     i_Name i \<noteq> [] \<and> i_Listen i \<noteq> [] \<and> 0 \<le> i_MaxConnections i \<and>
     ((i_Mode i = InboundModeTCP \<and> i_Upstream i \<noteq> [] \<and> i_Upstream i \<in> upstreams) \<or>
      (i_Mode i = InboundModeKLESSServer \<and> valid_ServerKLESSConfig E allow (i_KLESS i)))"

definition valid_Config :: "env \<Rightarrow> Config \<Rightarrow> bool" where
  "valid_Config E c \<longleftrightarrow>
     c_NodeID c \<noteq> [] \<and> c_Inbounds c \<noteq> [] \<and> good_duration (c_ShutdownGrace c) \<and>
     (\<forall>k \<in> set_option (c_Kboard c). valid_KboardConfig E k) \<and>
     (\<forall>u \<in> set (c_Upstreams c). valid_UpstreamConfig E u) \<and>
     distinct (map u_Name (c_Upstreams c)) \<and>
     (\<forall>i \<in> set (c_Inbounds c).
        valid_InboundConfig E (u_Name ` set (c_Upstreams c)) (allow_dynamic (c_Kboard c)) i) \<and>
     distinct (map i_Name (c_Inbounds c))"

section \<open>Normal forms\<close>

definition normalize_client :: "ServerKLESSClientConfig \<Rightarrow> ServerKLESSClientConfig" where
  "normalize_client c =
     \<lparr>cc_ClientID = trim_space (cc_ClientID c), cc_ClientSecret = trim_space (cc_ClientSecret c)\<rparr>"

definition normalize_server :: "env \<Rightarrow> ServerKLESSConfig \<Rightarrow> ServerKLESSConfig" where
  "normalize_server E k =
     (ServerKLESSConfig_applyDefaults E k)\<lparr>s_Clients := map normalize_client (s_Clients k)\<rparr>"

definition normalize_inbound :: "env \<Rightarrow> InboundConfig \<Rightarrow> InboundConfig" where
  "normalize_inbound E i0 =
     (let i = i0\<lparr>i_Name := trim_space (i_Name i0), i_Listen := trim_space (i_Listen i0),
                 i_Mode := normalizeInboundMode E (i_Mode i0),
                 i_Upstream := trim_space (i_Upstream i0)\<rparr>
      in if i_Mode i = InboundModeKLESSServer
         then i\<lparr>i_KLESS := normalize_server E (i_KLESS i)\<rparr> else i)"

definition normalize_config :: "env \<Rightarrow> Config \<Rightarrow> Config" where
  "normalize_config E c0 =
     (let c = Config_applyDefaults E c0
      in c\<lparr>c_Kboard := map_option KboardConfig_applyDefaults (c_Kboard c),
           c_Upstreams := map (UpstreamConfig_applyDefaults E) (c_Upstreams c),
           c_Inbounds := map (normalize_inbound E) (c_Inbounds c)\<rparr>)"

section \<open>Each check against its specification\<close>

lemma parseDuration_ok: "is_ok (parseDuration text fallback) \<longleftrightarrow> good_duration text"
  by (auto simp: parseDuration_def good_duration_def split: sum.splits)

lemma parseDuration_cases:
  "(case parseDuration text fallback of Inl e \<Rightarrow> Inl (f e) | Inr _ \<Rightarrow> r) = Inr y
   \<longleftrightarrow> good_duration text \<and> r = Inr y"
  using parseDuration_ok [of "text" fallback] by (cases "parseDuration text fallback") auto

lemma good_padding_iff: "good_padding E lo hi \<longleftrightarrow> \<not> bad_padding E lo hi"
  by (auto simp: good_padding_def bad_padding_def)

lemma supported_iff: "isSupportedTransport E t \<longleftrightarrow> t \<in> supported_transports"
  by (auto simp: isSupportedTransport_def capabilityForTransport_def supported_transports_def)

lemma KboardConfig_Validate_iff:
  "KboardConfig_Validate E k = Inr k' \<longleftrightarrow>
     k' = KboardConfig_applyDefaults k \<and> valid_KboardConfig E k'"
  by (auto simp: KboardConfig_Validate_def Let_def valid_KboardConfig_def parseDuration_cases is_ok_iff
      split: sum.splits)

lemma KLESSConfig_check_private_iff:
  "decodeKey (k_ServerSigningKey k) = Inr key \<Longrightarrow>
   KLESSConfig_check_private k key = Inr () \<longleftrightarrow>
     (k_ServerSigningPrivate k \<noteq> [] \<longrightarrow>
        good_key_pair (k_ServerSigningKey k) (k_ServerSigningPrivate k))"
  by (auto simp: KLESSConfig_check_private_def good_key_pair_def k_ServerSigningPrivateBytes_def
      publicMatchesPrivate_def ed25519_Public_def PrivateKeySize_def split: sum.splits)

lemma KLESSConfig_check_limits_iff:
  "KLESSConfig_check_limits E transport k = Inr () \<longleftrightarrow>
     0 \<le> k_MaxFramePayload k \<and> good_padding E (k_PaddingMin k) (k_PaddingMax k) \<and>
     good_duration (k_HandshakeTimeout k) \<and> is_ok (capabilityMask E transport (k_Capabilities k))"
  by (auto simp: KLESSConfig_check_limits_def good_padding_iff parseDuration_cases is_ok_iff
      split: sum.splits)

lemma decodeKey_unmixed:
  "decodeKey a = Inr x \<Longrightarrow> decodeKey b = Inr y \<Longrightarrow> 0 < length x \<Longrightarrow>
   unmixed a b \<longleftrightarrow> \<not> sameNonEmptySecret a b \<and> x \<noteq> y"
proof -
  assume a: "decodeKey a = Inr x" and b: "decodeKey b = Inr y" and x: "0 < length x"
  have "trim_space a \<noteq> []"
  proof
    assume "trim_space a = []"
    then have "decodeKey a = Inr []" by (simp add: decodeKey_def drop_blanks_def)
    with a x show False by simp
  qed
  with a b show ?thesis by (auto simp: unmixed_def sameNonEmptySecret_iff)
qed

lemma KLESSConfig_Validate_iff:
  "KLESSConfig_Validate E transport k = Inr () \<longleftrightarrow> valid_KLESSConfig E transport k"
proof (cases "decodeKey (k_ClientSecret k)")
  case (Inl e)
  then show ?thesis
    by (simp add: KLESSConfig_Validate_def valid_KLESSConfig_def good_secret_def k_ClientSecretBytes_def)
next
  case secret: (Inr secret)
  show ?thesis
  proof (cases "decodeKey (k_ServerSigningKey k)")
    case (Inl e)
    with secret show ?thesis
      by (simp add: KLESSConfig_Validate_def valid_KLESSConfig_def k_ClientSecretBytes_def
          k_ServerSigningKeyBytes_def)
  next
    case key: (Inr key)
    have un: "32 \<le> length secret \<Longrightarrow> unmixed (k_ClientSecret k) (k_ServerSigningKey k) \<longleftrightarrow>
        \<not> sameNonEmptySecret (k_ClientSecret k) (k_ServerSigningKey k) \<and> secret \<noteq> key"
      by (rule decodeKey_unmixed [OF secret key]) auto
    have "KLESSConfig_Validate E transport k = Inr () \<longleftrightarrow>
        k_ClientID k \<noteq> [] \<and> \<not> sameNonEmptySecret (k_ClientSecret k) (k_ServerSigningKey k) \<and>
        32 \<le> length secret \<and> secret \<noteq> key \<and> length key = 32 \<and>
        KLESSConfig_check_private k key = Inr () \<and> KLESSConfig_check_limits E transport k = Inr ()"
      using secret key
      by (auto simp: KLESSConfig_Validate_def key_bytes_defs PublicKeySize_def split: sum.splits)
    then show ?thesis
      using un secret key
      by (auto simp: valid_KLESSConfig_def good_secret_def KLESSConfig_check_limits_iff
          KLESSConfig_check_private_iff [OF key])
  qed
qed

lemma UpstreamConfig_check_url_iff:
  "UpstreamConfig_check_url E u = Inr () \<longleftrightarrow>
     (transportUsesAddress (u_Transport u) \<or> good_url E (u_URL u))"
  by (auto simp: UpstreamConfig_check_url_def transportUsesURL_def good_url_def split: sum.splits)

lemma ex_parseDuration: "(\<exists>d. parseDuration t fallback = Inr d) \<longleftrightarrow> good_duration t"
  using parseDuration_ok [of t fallback] by (simp add: is_ok_iff)

lemma ex_unit_ok: "(\<exists>x::unit. r = Inr x) \<longleftrightarrow> r = Inr ()"
  by simp

lemma UpstreamConfig_Validate_iff:
  "UpstreamConfig_Validate E u0 = Inr u' \<longleftrightarrow>
     u' = UpstreamConfig_applyDefaults E u0 \<and> valid_UpstreamConfig E u'"
proof -
  define u where "u = UpstreamConfig_applyDefaults E u0"
  have "UpstreamConfig_Validate E u0 = Inr u' \<longleftrightarrow> u' = u \<and> valid_UpstreamConfig E u"
    unfolding UpstreamConfig_Validate_def u_def [symmetric] Let_def valid_UpstreamConfig_def
    by (cases "os_Stat E (u_CAFile u)")
      (auto simp: result_Inr_iffs ex_parseDuration ex_unit_ok supported_iff
        KLESSConfig_Validate_iff UpstreamConfig_check_url_iff)
  then show ?thesis by (auto simp: u_def)
qed

lemma ServerKLESSClientConfig_Validate_iff:
  "ServerKLESSClientConfig_Validate c = Inr c' \<longleftrightarrow> c' = normalize_client c \<and> valid_client c'"
  by (auto simp: ServerKLESSClientConfig_Validate_def normalize_client_def valid_client_def
      good_secret_def Let_def split: sum.splits)

lemma validate_clients_iff:
  "validate_clients i cs = Inr cs' \<longleftrightarrow>
     cs' = map normalize_client cs \<and> (\<forall>c \<in> set cs'. valid_client c)"
proof (induction cs arbitrary: i cs')
  case (Cons c cs)
  show ?case
    by (auto simp: sum_case_Inr_iff ServerKLESSClientConfig_Validate_iff Cons.IH)
qed auto

lemma s_ServerSigningPrivateBytes_iff:
  "s_ServerSigningPrivateBytes k = Inr key \<longleftrightarrow>
     decodeKey (s_ServerSigningPrivate k) = Inr key \<and> length key = 64"
  by (auto simp: s_ServerSigningPrivateBytes_def PrivateKeySize_def split: sum.splits)

lemma s_ServerSigningKeyBytes_iff:
  "s_ServerSigningKeyBytes k = Inr key \<longleftrightarrow>
     decodeKey (s_ServerSigningKey k) = Inr key \<and> length key = 32"
  by (auto simp: s_ServerSigningKeyBytes_def PublicKeySize_def split: sum.splits)

lemma good_private_iff:
  "good_private t \<longleftrightarrow> (\<exists>priv. decodeKey t = Inr priv \<and> length priv = 64)"
  by (auto simp: good_private_def split: sum.splits)

lemma ServerKLESSConfig_check_keys_iff:
  "ServerKLESSConfig_check_keys k = Inr () \<longleftrightarrow>
     good_private (s_ServerSigningPrivate k) \<and>
     (s_ServerSigningKey k \<noteq> [] \<longrightarrow>
        good_key_pair (s_ServerSigningKey k) (s_ServerSigningPrivate k))"
  by (cases "s_ServerSigningKey k = []")
    (auto simp: ServerKLESSConfig_check_keys_def sum_case_Inr_iff if_Inl_Inr_iff good_private_iff
      s_ServerSigningPrivateBytes_iff s_ServerSigningKeyBytes_iff good_key_pair_def
      publicMatchesPrivate_def ed25519_Public_def)

lemma good_key_pair_key_bytes:
  "good_key_pair (s_ServerSigningKey k) private \<Longrightarrow> \<exists>key. s_ServerSigningKeyBytes k = Inr key"
  by (auto simp: good_key_pair_def s_ServerSigningKeyBytes_iff)

lemma ServerKLESSConfig_check_secret_iff:
  assumes t: "trim_space (s_ClientSecret k) = s_ClientSecret k"
      "trim_space (s_ClientID k) = s_ClientID k" "trim_space (s_ServerSigningKey k) = s_ServerSigningKey k"
    and keys: "ServerKLESSConfig_check_keys k = Inr ()"
  shows "ServerKLESSConfig_check_secret allow k = Inr () \<longleftrightarrow>
    (s_ClientSecret k \<noteq> [] \<longrightarrow>
        good_secret (s_ClientSecret k) \<and>
        (s_ServerSigningKey k \<noteq> [] \<longrightarrow> unmixed (s_ClientSecret k) (s_ServerSigningKey k)) \<and>
        (s_ClientID k \<noteq> [] \<or> allow))"
proof (cases "decodeKey (s_ClientSecret k)")
  case (Inl e)
  with t show ?thesis
    by (auto simp: ServerKLESSConfig_check_secret_def Let_def hasClientSecret_def s_ClientSecretBytes_def
        good_secret_def)
next
  case secret: (Inr secret)
  show ?thesis
  proof (cases "s_ServerSigningKey k = []")
    case True
    with t secret show ?thesis
      by (auto simp: ServerKLESSConfig_check_secret_def Let_def hasClientSecret_def s_ClientSecretBytes_def
          good_secret_def sameNonEmptySecret_iff)
  next
    case False
    with keys obtain key where key: "s_ServerSigningKeyBytes k = Inr key"
      using good_key_pair_key_bytes ServerKLESSConfig_check_keys_iff by blast
    then have "32 \<le> length secret \<Longrightarrow> unmixed (s_ClientSecret k) (s_ServerSigningKey k) \<longleftrightarrow>
        \<not> sameNonEmptySecret (s_ClientSecret k) (s_ServerSigningKey k) \<and> secret \<noteq> key"
      by (intro decodeKey_unmixed [OF secret]) (auto simp: s_ServerSigningKeyBytes_iff)
    with False t secret key show ?thesis
      by (auto simp: ServerKLESSConfig_check_secret_def Let_def hasClientSecret_def s_ClientSecretBytes_def
          good_secret_def)
  qed
qed

lemma ServerKLESSConfig_check_limits_iff:
  assumes "trim_space (s_ClientSecret k) = s_ClientSecret k" "trim_space (s_ClientID k) = s_ClientID k"
  shows "ServerKLESSConfig_check_limits E allow k = Inr () \<longleftrightarrow>
     ((s_ClientID k \<noteq> [] \<and> s_ClientSecret k \<noteq> []) \<or> s_Clients k \<noteq> [] \<or> allow) \<and>
     0 \<le> s_MaxFramePayload k \<and> good_padding E (s_PaddingMin k) (s_PaddingMax k) \<and>
     good_duration (s_HandshakeTimeout k) \<and> good_duration (s_MaxHandshakeSkew k) \<and>
     good_duration (s_UsersRefreshInterval k) \<and> is_ok (CapabilityMask E k)"
  using assms
  by (auto simp: ServerKLESSConfig_check_limits_def hasStaticClient_def hasClientSecret_def
      result_Inr_iffs ex_parseDuration good_padding_iff CapabilityMask_def is_ok_iff)

lemma ServerKLESSConfig_applyDefaults_trimmed [simp]:
  "trim_space (s_ClientID (ServerKLESSConfig_applyDefaults E k)) = s_ClientID (ServerKLESSConfig_applyDefaults E k)"
  "trim_space (s_ClientSecret (ServerKLESSConfig_applyDefaults E k)) = s_ClientSecret (ServerKLESSConfig_applyDefaults E k)"
  "trim_space (s_ServerSigningKey (ServerKLESSConfig_applyDefaults E k)) = s_ServerSigningKey (ServerKLESSConfig_applyDefaults E k)"
  "s_Clients (ServerKLESSConfig_applyDefaults E k) = s_Clients k"
  by (simp_all add: ServerKLESSConfig_applyDefaults_def)

lemma CapabilityMask_clients [simp]: "CapabilityMask E (k\<lparr>s_Clients := cs\<rparr>) = CapabilityMask E k"
  by (simp add: CapabilityMask_def)

lemma ServerKLESSConfig_Validate_iff:
  "ServerKLESSConfig_Validate E allow k0 = Inr k' \<longleftrightarrow>
     k' = normalize_server E k0 \<and> valid_ServerKLESSConfig E allow k'"
proof -
  define k where "k = ServerKLESSConfig_applyDefaults E k0"
  define cs where "cs = map normalize_client (s_Clients k0)"
  have t: "trim_space (s_ClientSecret k) = s_ClientSecret k" "trim_space (s_ClientID k) = s_ClientID k"
    "trim_space (s_ServerSigningKey k) = s_ServerSigningKey k" "s_Clients k = s_Clients k0"
    by (simp_all add: k_def)
  have "ServerKLESSConfig_Validate E allow k0 = Inr k' \<longleftrightarrow>
      ServerKLESSConfig_check_keys k = Inr () \<and> ServerKLESSConfig_check_secret allow k = Inr () \<and>
      (\<forall>c \<in> set cs. valid_client c) \<and>
      ServerKLESSConfig_check_limits E allow (k\<lparr>s_Clients := cs\<rparr>) = Inr () \<and> k' = k\<lparr>s_Clients := cs\<rparr>"
    unfolding ServerKLESSConfig_Validate_def k_def [symmetric] Let_def
    by (auto simp: sum_case_Inr_iff validate_clients_iff cs_def t(4))
  also have "\<dots> \<longleftrightarrow> k' = k\<lparr>s_Clients := cs\<rparr> \<and> valid_ServerKLESSConfig E allow (k\<lparr>s_Clients := cs\<rparr>)"
    using t
    by (auto simp: valid_ServerKLESSConfig_def ServerKLESSConfig_check_limits_iff
        ServerKLESSConfig_check_secret_iff ServerKLESSConfig_check_keys_iff)
  finally show ?thesis
    by (auto simp: normalize_server_def k_def cs_def)
qed

lemma InboundConfig_Validate_iff:
  "InboundConfig_Validate E upstreams allow i0 = Inr i' \<longleftrightarrow>
     i' = normalize_inbound E i0 \<and> valid_InboundConfig E upstreams allow i'"
proof -
  define i where "i = i0\<lparr>i_Name := trim_space (i_Name i0), i_Listen := trim_space (i_Listen i0),
                 i_Mode := normalizeInboundMode E (i_Mode i0),
                 i_Upstream := trim_space (i_Upstream i0)\<rparr>"
  have modes: "InboundModeTCP \<noteq> InboundModeKLESSServer" by (simp add: inbound_mode_defs)
  have "InboundConfig_Validate E upstreams allow i0 = Inr i' \<longleftrightarrow>
     i' = (if i_Mode i = InboundModeKLESSServer
           then i\<lparr>i_KLESS := normalize_server E (i_KLESS i)\<rparr> else i) \<and>
     valid_InboundConfig E upstreams allow i'"
    unfolding InboundConfig_Validate_def i_def [symmetric] Let_def valid_InboundConfig_def
    using modes
    by (auto simp: sum_case_Inr_iff if_Inl_Inr_iff ServerKLESSConfig_Validate_iff)
  then show ?thesis
    unfolding normalize_inbound_def i_def [symmetric] Let_def .
qed

section \<open>The whole configuration\<close>

lemma validate_upstreams_iff:
  "validate_upstreams E n seen us = Inr us' \<longleftrightarrow>
     us' = map (UpstreamConfig_applyDefaults E) us \<and> (\<forall>u \<in> set us'. valid_UpstreamConfig E u) \<and>
     fresh_names u_Name seen us'"
proof (induction us arbitrary: n seen us')
  case (Cons u us)
  show ?case
    by (auto simp: sum_case_Inr_iff if_Inl_Inr_iff UpstreamConfig_Validate_iff Cons.IH)
qed auto

lemma validate_inbounds_iff:
  "validate_inbounds E ups allow n seen ins = Inr ins' \<longleftrightarrow>
     ins' = map (normalize_inbound E) ins \<and> (\<forall>i \<in> set ins'. valid_InboundConfig E ups allow i) \<and>
     fresh_names i_Name seen ins'"
proof (induction ins arbitrary: n seen ins')
  case (Cons i ins)
  show ?case
    by (auto simp: sum_case_Inr_iff if_Inl_Inr_iff InboundConfig_Validate_iff Cons.IH)
qed auto

lemma validate_kboard_iff:
  "validate_kboard E kb = Inr kb' \<longleftrightarrow>
     kb' = map_option KboardConfig_applyDefaults kb \<and>
     (\<forall>k \<in> set_option kb'. valid_KboardConfig E k)"
  by (cases kb) (auto simp: validate_kboard_def sum_case_Inr_iff KboardConfig_Validate_iff)

lemma Config_Validate_iff:
  "Config_Validate E c0 = Inr c' \<longleftrightarrow> c' = normalize_config E c0 \<and> valid_Config E c'"
proof -
  define c where "c = Config_applyDefaults E c0"
  have t: "trim_space (c_NodeID c) = c_NodeID c" by (simp add: c_def Config_applyDefaults_def)
  show ?thesis
    unfolding Config_Validate_def normalize_config_def c_def [symmetric] Let_def valid_Config_def
    using t
    by (auto simp: sum_case_Inr_iff if_Inl_Inr_iff ex_parseDuration validate_kboard_iff
        validate_upstreams_iff validate_inbounds_iff)
qed

lemma good_duration_positive:
  "good_duration t \<Longrightarrow> t \<noteq> [] \<or> 0 < fallback \<Longrightarrow> 0 < duration_or_zero t fallback"
  by (auto simp: good_duration_def duration_or_zero_def parseDuration_def split: sum.splits)

end
