(* ===== verification/Config_Idempotent.thy ===== *)
theory Config_Idempotent
  imports Config_Spec
begin

text \<open>
  Validating twice.  \<open>main\<close> validates the configuration in \<open>Load\<close>, \<open>node.New\<close> validates it
  again and \<open>NewUpstreamDialer\<close> validates every upstream a third time, so the normal form
  has to be stable.  It is, but for one field: \<open>public_url\<close> is trimmed of blanks first and of
  slashes afterwards, which does not reach a fixed point when blanks and slashes alternate at
  its end.
\<close>

section \<open>Stable pieces\<close>

lemma plain_literals [simp]:
  "trim_space ''tcp'' = ''tcp''" "trim_space ''kless-server'' = ''kless-server''"
  by (rule trim_space_all_plain; simp add: plain_char_def)+

lemma slash_not_in_white: "w \<in> set white_seqs \<Longrightarrow> CHR ''/'' \<notin> set w"
  by (auto simp: white_seqs_def)

lemma trim_right_stop:
  "trim_right s = s \<longleftrightarrow> (\<forall>w \<in> set white_seqs. \<not> suffix w s)"
proof
  assume s: "trim_right s = s"
  have "find (\<lambda>w. w \<noteq> [] \<and> prefix w (rev s)) (map rev white_seqs) = None"
    using strip_seqs_stop [of "map rev white_seqs" "rev s"] s
    by (simp add: trim_right_def rev_swap)
  then show "\<forall>w \<in> set white_seqs. \<not> suffix w s"
    using white_seqs_nonempty by (fastforce simp: find_None_iff suffix_to_prefix)
next
  assume "\<forall>w \<in> set white_seqs. \<not> suffix w s"
  then have "find (\<lambda>w. w \<noteq> [] \<and> prefix w (rev s)) (map rev white_seqs) = None"
    by (auto simp: find_None_iff suffix_to_prefix)
  then show "trim_right s = s" by (simp add: trim_right_def strip_seqs_id)
qed

lemma trim_right_slash_Cons:
  assumes "trim_right s = s" shows "trim_right (CHR ''/'' # s) = CHR ''/'' # s"
  unfolding trim_right_stop
proof
  fix w assume w: "w \<in> set white_seqs"
  then have "\<not> suffix w s" using assms unfolding trim_right_stop by blast
  moreover have "w \<noteq> CHR ''/'' # s" using slash_not_in_white [OF w] by auto
  ultimately show "\<not> suffix w (CHR ''/'' # s)" by (simp add: suffix_Cons)
qed

lemma trim_right_trim_space [simp]: "trim_right (trim_space s) = trim_space s"
  by (simp add: trim_space_def)

lemma trim_space_slash_Cons: "trim_space (CHR ''/'' # trim_space s) = CHR ''/'' # trim_space s"
proof -
  have "trim_left (CHR ''/'' # trim_space s) = CHR ''/'' # trim_space s"
    by (rule trim_left_plain) (simp add: plain_char_def)
  then show ?thesis by (simp add: trim_space_def [of "CHR ''/'' # trim_space s"] trim_right_slash_Cons)
qed

lemma normalizeEndpoint_idem [simp]: "normalizeEndpoint (normalizeEndpoint e) = normalizeEndpoint e"
  by (auto simp: normalizeEndpoint_def Let_def trim_space_slash_Cons)

lemma Duration_String_nonempty [simp]: "Duration_String d \<noteq> []"
proof (cases "d < 0")
  case True
  then show ?thesis by (simp add: Duration_String_def Let_def)
next
  case False
  then show ?thesis
    using fmt_seconds_shape [of "nat d"]
    by (auto simp: Duration_String_def Let_def fmt_scaled_def duration_shape_def split: prod.splits)
qed

lemma supported_stable: "t \<in> supported_transports \<Longrightarrow> ToLower E (trim_space t) = t"
proof -
  assume t: "t \<in> supported_transports"
  then have "\<forall>c \<in> set t. plain_char c" "list_all is_ascii t" "map ascii_lower t = t"
    by (auto simp: supported_transports_def transport_defs plain_char_def is_ascii_def ascii_lower_def)
  then show ?thesis by (simp add: trim_space_all_plain ToLower_ascii)
qed

lemma mode_stable:
  "m \<in> {InboundModeTCP, InboundModeKLESSServer} \<Longrightarrow> normalizeInboundMode E m = m"
  by (auto simp: inbound_mode_defs normalizeInboundMode_def ToLower_ascii is_ascii_def
      ascii_lower_def)

section \<open>Stable normal forms\<close>

definition stable_url :: "KboardConfig \<Rightarrow> bool" where
  "stable_url k \<longleftrightarrow> trim_right_slash (trim_space (kb_PublicURL k)) = kb_PublicURL k"

lemma KboardConfig_applyDefaults_stable:
  assumes "k = KboardConfig_applyDefaults k0" and "stable_url k"
  shows "KboardConfig_applyDefaults k = k"
  using assms(2) unfolding assms(1)
  by (simp add: KboardConfig_applyDefaults_def stable_url_def)

lemma UpstreamConfig_applyDefaults_stable:
  assumes "u = UpstreamConfig_applyDefaults E u0" and "u_Transport u \<in> supported_transports"
  shows "UpstreamConfig_applyDefaults E u = u"
  using supported_stable [OF assms(2), of E] assms(1)
  by (simp add: UpstreamConfig_applyDefaults_def)

lemma ServerKLESSConfig_applyDefaults_idem [simp]:
  "ServerKLESSConfig_applyDefaults E (ServerKLESSConfig_applyDefaults E k)
     = ServerKLESSConfig_applyDefaults E k"
  by (simp add: ServerKLESSConfig_applyDefaults_def)

lemma normalize_client_idem [simp]: "normalize_client (normalize_client c) = normalize_client c"
  by (simp add: normalize_client_def)

lemma normalize_server_defaults [simp]:
  "normalize_server E (ServerKLESSConfig_applyDefaults E k) = normalize_server E k"
  "ServerKLESSConfig_applyDefaults E (normalize_server E k) = normalize_server E k"
  by (simp_all add: normalize_server_def ServerKLESSConfig_applyDefaults_def)

lemma normalize_server_idem [simp]: "normalize_server E (normalize_server E k) = normalize_server E k"
  by (simp add: normalize_server_def ServerKLESSConfig_applyDefaults_def)

lemma normalize_inbound_stable:
  assumes i: "i = normalize_inbound E (InboundConfig_applyDefaults E i0)"
    and mode: "i_Mode i \<in> {InboundModeTCP, InboundModeKLESSServer}"
  shows "InboundConfig_applyDefaults E i = i" and "normalize_inbound E i = i"
proof -
  define m where "m = normalizeInboundMode E (normalizeInboundMode E (i_Mode i0))"
  define k where "k = (if m = InboundModeKLESSServer then normalize_server E (i_KLESS i0)
      else ServerKLESSConfig_applyDefaults E (i_KLESS i0))"
  have form: "i = i0\<lparr>i_Name := trim_space (i_Name i0), i_Listen := trim_space (i_Listen i0),
      i_Mode := m, i_Upstream := trim_space (i_Upstream i0), i_KLESS := k\<rparr>"
    unfolding i by (simp add: normalize_inbound_def InboundConfig_applyDefaults_def Let_def m_def k_def)
  have m: "normalizeInboundMode E m = m" using mode mode_stable form by simp
  have k: "ServerKLESSConfig_applyDefaults E k = k"
      "m = InboundModeKLESSServer \<Longrightarrow> normalize_server E k = k"
    by (simp_all add: k_def)
  show "InboundConfig_applyDefaults E i = i"
    unfolding form InboundConfig_applyDefaults_def by (simp add: m k)
  show "normalize_inbound E i = i"
    unfolding form normalize_inbound_def Let_def
    by (cases "m = InboundModeKLESSServer") (use m k in auto)
qed

lemma normalize_config_stable:
  assumes c: "c = normalize_config E c0" and valid: "valid_Config E c"
    and url: "\<forall>k \<in> set_option (c_Kboard c). stable_url k"
  shows "normalize_config E c = c"
proof -
  have kb: "map_option KboardConfig_applyDefaults (c_Kboard c) = c_Kboard c"
    using url
    by (auto simp: c normalize_config_def Config_applyDefaults_def Let_def
        intro!: KboardConfig_applyDefaults_stable [OF refl] split: option.splits)
      (cases "c_Kboard c0"; auto intro!: KboardConfig_applyDefaults_stable [OF refl])
  have us: "map (UpstreamConfig_applyDefaults E) (c_Upstreams c) = c_Upstreams c"
  proof (rule map_idI)
    fix u assume u: "u \<in> set (c_Upstreams c)"
    then obtain u0 where "u = UpstreamConfig_applyDefaults E u0"
      by (auto simp: c normalize_config_def Let_def)
    moreover have "u_Transport u \<in> supported_transports"
      using valid u by (auto simp: valid_Config_def valid_UpstreamConfig_def)
    ultimately show "UpstreamConfig_applyDefaults E u = u"
      by (rule UpstreamConfig_applyDefaults_stable)
  qed
  have ins: "InboundConfig_applyDefaults E i = i \<and> normalize_inbound E i = i"
    if i: "i \<in> set (c_Inbounds c)" for i
  proof -
    from i obtain i0 where "i = normalize_inbound E (InboundConfig_applyDefaults E i0)"
      by (auto simp: c normalize_config_def Config_applyDefaults_def Let_def)
    moreover have "i_Mode i \<in> {InboundModeTCP, InboundModeKLESSServer}"
      using valid i by (auto simp: valid_Config_def valid_InboundConfig_def)
    ultimately show ?thesis using normalize_inbound_stable by blast
  qed
  have rest: "trim_space (c_NodeID c) = c_NodeID c" "ad_Address (c_Admin c) \<noteq> []" "c_ShutdownGrace c \<noteq> []"
    by (auto simp: c normalize_config_def Config_applyDefaults_def Let_def DefaultAdminAddress_def)
  show ?thesis
    unfolding normalize_config_def Config_applyDefaults_def Let_def
    using kb us ins rest
    by (simp add: map_idI)
qed

lemma Config_Validate_twice:
  assumes "Config_Validate E c = Inr c'" and "\<forall>k \<in> set_option (c_Kboard c'). stable_url k"
  shows "Config_Validate E c' = Inr c'"
proof -
  have norm: "c' = normalize_config E c" and valid: "valid_Config E c'"
    using assms(1) unfolding Config_Validate_iff by blast+
  have "normalize_config E c' = c'" by (rule normalize_config_stable [OF norm valid assms(2)])
  with valid show ?thesis unfolding Config_Validate_iff by simp
qed

end
