(* ===== verification/Sha256.thy ===== *)
theory Sha256
  imports Base64
begin

unbundle bit_operations_syntax

text \<open>
  Go's \<open>crypto/sha256\<close>, \<open>crypto/hmac\<close> and \<open>encoding/hex\<close> as \<open>hmacSignature\<close> and
  \<open>deriveUserClientSecret\<close> use them: SHA-256 (FIPS 180-4) on byte lists over 32-bit words,
  HMAC (FIPS 198-1) over any hash with a block size, and the lower-case hexadecimal text of
  a byte list.  What is proved of them is what the program relies on: digests are 32 bytes,
  MACs are as long as the hash's digests, and hexadecimal text determines the bytes.
\<close>

section \<open>SHA-256\<close>

type_synonym u32 = "32 word"
type_synonym sha_state = "u32 \<times> u32 \<times> u32 \<times> u32 \<times> u32 \<times> u32 \<times> u32 \<times> u32"

definition sha_K :: "u32 list" where
  "sha_K = concat
       [[0x428a2f98, 0x71374491, 0xb5c0fbcf, 0xe9b5dba5, 0x3956c25b, 0x59f111f1, 0x923f82a4, 0xab1c5ed5],
        [0xd807aa98, 0x12835b01, 0x243185be, 0x550c7dc3, 0x72be5d74, 0x80deb1fe, 0x9bdc06a7, 0xc19bf174],
        [0xe49b69c1, 0xefbe4786, 0x0fc19dc6, 0x240ca1cc, 0x2de92c6f, 0x4a7484aa, 0x5cb0a9dc, 0x76f988da],
        [0x983e5152, 0xa831c66d, 0xb00327c8, 0xbf597fc7, 0xc6e00bf3, 0xd5a79147, 0x06ca6351, 0x14292967],
        [0x27b70a85, 0x2e1b2138, 0x4d2c6dfc, 0x53380d13, 0x650a7354, 0x766a0abb, 0x81c2c92e, 0x92722c85],
        [0xa2bfe8a1, 0xa81a664b, 0xc24b8b70, 0xc76c51a3, 0xd192e819, 0xd6990624, 0xf40e3585, 0x106aa070],
        [0x19a4c116, 0x1e376c08, 0x2748774c, 0x34b0bcb5, 0x391c0cb3, 0x4ed8aa4a, 0x5b9cca4f, 0x682e6ff3],
        [0x748f82ee, 0x78a5636f, 0x84c87814, 0x8cc70208, 0x90befffa, 0xa4506ceb, 0xbef9a3f7, 0xc67178f2]]"

definition sha_init :: sha_state where
  "sha_init = (0x6a09e667, 0xbb67ae85, 0x3c6ef372, 0xa54ff53a,
               0x510e527f, 0x9b05688c, 0x1f83d9ab, 0x5be0cd19)"

definition rotr :: "nat \<Rightarrow> u32 \<Rightarrow> u32" where
  "rotr n x = drop_bit n x OR push_bit (32 - n) x"

definition small_sigma0 :: "u32 \<Rightarrow> u32" where
  "small_sigma0 x = rotr 7 x XOR rotr 18 x XOR drop_bit 3 x"

definition small_sigma1 :: "u32 \<Rightarrow> u32" where
  "small_sigma1 x = rotr 17 x XOR rotr 19 x XOR drop_bit 10 x"

definition big_sigma0 :: "u32 \<Rightarrow> u32" where
  "big_sigma0 x = rotr 2 x XOR rotr 13 x XOR rotr 22 x"

definition big_sigma1 :: "u32 \<Rightarrow> u32" where
  "big_sigma1 x = rotr 6 x XOR rotr 11 x XOR rotr 25 x"

definition sha_ch :: "u32 \<Rightarrow> u32 \<Rightarrow> u32 \<Rightarrow> u32" where
  "sha_ch x y z = (x AND y) XOR (NOT x AND z)"

definition sha_maj :: "u32 \<Rightarrow> u32 \<Rightarrow> u32 \<Rightarrow> u32" where
  "sha_maj x y z = (x AND y) XOR (x AND z) XOR (y AND z)"

text \<open>The padded message, its 32-bit words, and the 64-byte blocks.\<close>

definition be_bytes :: "nat \<Rightarrow> nat \<Rightarrow> bytes" where
  "be_bytes n v = rev (map (\<lambda>i. word_of_nat (v div 256 ^ i)) [0..<n])"

definition sha_pad :: "bytes \<Rightarrow> bytes" where
  "sha_pad m = m @ [0x80] @ replicate ((119 - length m mod 64) mod 64) 0 @ be_bytes 8 (8 * length m)"

fun be_words :: "bytes \<Rightarrow> u32 list" where
  "be_words (a # b # c # d # rest) =
     word_of_nat (((unat a * 256 + unat b) * 256 + unat c) * 256 + unat d) # be_words rest"
| "be_words _ = []"

text \<open>
  The message schedule, newest word first: each of the 48 steps puts one more word in
  front of the sixteen of the block.
\<close>

fun sha_schedule :: "nat \<Rightarrow> u32 list \<Rightarrow> u32 list" where
  "sha_schedule 0 ws = ws"
| "sha_schedule (Suc n) ws =
     sha_schedule n ((small_sigma1 (ws ! 1) + ws ! 6 + small_sigma0 (ws ! 14) + ws ! 15) # ws)"

fun sha_round :: "sha_state \<Rightarrow> u32 \<Rightarrow> sha_state" where
  "sha_round (a, b, c, d, e, f, g, h) kw =
     (let t1 = h + big_sigma1 e + sha_ch e f g + kw;
          t2 = big_sigma0 a + sha_maj a b c
      in (t1 + t2, a, b, c, d + t1, e, f, g))"

definition sha_add :: "sha_state \<Rightarrow> sha_state \<Rightarrow> sha_state" where
  "sha_add s t =
     (case (s, t) of ((a, b, c, d, e, f, g, h), (a', b', c', d', e', f', g', h')) \<Rightarrow>
        (a + a', b + b', c + c', d + d', e + e', f + f', g + g', h + h'))"

definition sha_block :: "sha_state \<Rightarrow> u32 list \<Rightarrow> sha_state" where
  "sha_block s ws =
     sha_add s (foldl sha_round s (map2 (+) sha_K (rev (sha_schedule 48 (rev ws)))))"

fun sha_blocks :: "sha_state \<Rightarrow> u32 list \<Rightarrow> sha_state" where
  "sha_blocks s [] = s"
| "sha_blocks s (w # ws) = sha_blocks (sha_block s (take 16 (w # ws))) (drop 15 ws)"

definition sha_digest :: "sha_state \<Rightarrow> bytes" where
  "sha_digest s =
     (case s of (a, b, c, d, e, f, g, h) \<Rightarrow>
        concat (map (\<lambda>w. be_bytes 4 (unat w)) [a, b, c, d, e, f, g, h]))"

definition sha256_Sum256 :: "bytes \<Rightarrow> bytes" where
  "sha256_Sum256 m = sha_digest (sha_blocks sha_init (be_words (sha_pad m)))"

section \<open>HMAC and hexadecimal text\<close>

text \<open>\<open>hmac.New(H, key)\<close>, one \<open>Write\<close> and \<open>Sum(nil)\<close>, for a hash with the given block size.\<close>

definition hmac_key :: "(bytes \<Rightarrow> bytes) \<Rightarrow> nat \<Rightarrow> bytes \<Rightarrow> bytes" where
  "hmac_key H block key =
     (let k = (if block < length key then H key else key) in k @ replicate (block - length k) 0)"

definition hmac :: "(bytes \<Rightarrow> bytes) \<Rightarrow> nat \<Rightarrow> bytes \<Rightarrow> bytes \<Rightarrow> bytes" where
  "hmac H block key msg =
     (let k = hmac_key H block key
      in H (map (\<lambda>b. b XOR 0x5c) k @ H (map (\<lambda>b. b XOR 0x36) k @ msg)))"

definition hex_digit :: "nat \<Rightarrow> char" where
  "hex_digit d = (if d < 10 then char_of (48 + d) else char_of (87 + d))"

definition hex_EncodeToString :: "bytes \<Rightarrow> string" where
  "hex_EncodeToString bs = concat (map (\<lambda>b. [hex_digit (unat b div 16), hex_digit (unat b mod 16)]) bs)"

definition bytes_of_string :: "string \<Rightarrow> bytes" where
  "bytes_of_string s = map (\<lambda>c. of_char c) s"

section \<open>Digest lengths\<close>

lemma length_be_bytes [simp]: "length (be_bytes n v) = n"
  by (simp add: be_bytes_def)

lemma length_sha_digest [simp]: "length (sha_digest s) = 32"
proof (cases s rule: prod_cases7)
  case (fields a b c d e f g)
  then show ?thesis by (cases g) (simp add: sha_digest_def)
qed

lemma length_sha256 [simp]: "length (sha256_Sum256 m) = 32"
  unfolding sha256_Sum256_def by (rule length_sha_digest)

text \<open>
  The interface HMAC needs of its hash: digests of a fixed length that fit into a block.
  What the request signer and the secret derivation use follows from it.
\<close>

locale digest_function =
  fixes H :: "bytes \<Rightarrow> bytes" and block :: nat and size :: nat
  assumes digest_length: "length (H m) = size"
    and size_le_block: "size \<le> block"
begin

lemma hmac_key_length: "length (hmac_key H block key) = block"
  using size_le_block by (simp add: hmac_key_def Let_def digest_length)

lemma hmac_length: "length (hmac H block key msg) = size"
  by (simp add: hmac_def Let_def digest_length)

text \<open>A short key and the same key padded with zero bytes sign alike, as in the standard.\<close>

lemma hmac_key_padding:
  assumes "length key + n \<le> block"
  shows "hmac H block (key @ replicate n 0) msg = hmac H block key msg"
  using assms
  by (simp add: hmac_def hmac_key_def Let_def replicate_add [symmetric])

end

interpretation sha: digest_function sha256_Sum256 64 32
  by unfold_locales simp_all

section \<open>Hexadecimal text\<close>

definition is_hex_char :: "char \<Rightarrow> bool" where
  "is_hex_char c \<longleftrightarrow>
     (let n = (of_char c :: nat) in (48 \<le> n \<and> n \<le> 57) \<or> (97 \<le> n \<and> n \<le> 102))"

lemma hex_digit_hex: "d < 16 \<Longrightarrow> is_hex_char (hex_digit d)"
  by (auto simp: hex_digit_def is_hex_char_def Let_def)

lemma hex_digit_inj: "d < 16 \<Longrightarrow> e < 16 \<Longrightarrow> hex_digit d = hex_digit e \<longleftrightarrow> d = e"
  by (auto simp: hex_digit_def split: if_splits)

lemma hex_Nil [simp]: "hex_EncodeToString [] = []"
  by (simp add: hex_EncodeToString_def)

lemma hex_Cons [simp]:
  "hex_EncodeToString (b # bs) = hex_digit (unat b div 16) # hex_digit (unat b mod 16) # hex_EncodeToString bs"
  by (simp add: hex_EncodeToString_def)

lemma length_hex [simp]: "length (hex_EncodeToString bs) = 2 * length bs"
  by (induction bs) auto

lemma byte_div_16: "unat (b :: 8 word) div 16 < 16"
  using byte_lt [of b] by simp

lemma hex_chars: "c \<in> set (hex_EncodeToString bs) \<Longrightarrow> is_hex_char c"
  by (induction bs) (auto intro: hex_digit_hex byte_div_16)

lemma hex_inj: "hex_EncodeToString xs = hex_EncodeToString ys \<longleftrightarrow> xs = ys"
proof (induction xs arbitrary: ys)
  case Nil
  then show ?case by (cases ys) auto
next
  case (Cons x xs)
  show ?case
  proof (cases ys)
    case (Cons y zs)
    have "x = y" if "unat x div 16 = unat y div 16" "unat x mod 16 = unat y mod 16"
      using that by (metis div_mult_mod_eq unsigned_word_eqI)
    then show ?thesis
      by (auto simp: local.Cons Cons.IH hex_digit_inj byte_div_16)
  qed auto
qed

lemma bytes_of_string_append [simp]:
  "bytes_of_string (s @ t) = bytes_of_string s @ bytes_of_string t"
  by (simp add: bytes_of_string_def)

lemma length_bytes_of_string [simp]: "length (bytes_of_string s) = length s"
  by (simp add: bytes_of_string_def)

lemma of_char_byte_inj: "(of_char c :: 8 word) = of_char d \<longleftrightarrow> c = d"
proof
  assume eq: "(of_char c :: 8 word) = of_char d"
  then have "unat (of_char c :: 8 word) = unat (of_char d :: 8 word)" by simp
  then have "(of_char c :: nat) = of_char d" by (simp only: unat_of_char)
  then show "c = d" by simp
qed simp

lemma bytes_of_string_inj [simp]: "bytes_of_string s = bytes_of_string t \<longleftrightarrow> s = t"
  unfolding bytes_of_string_def
  by (rule inj_map_eq_map) (simp add: inj_def of_char_byte_inj)

end
