(* ===== verification/Client_Store.thy ===== *)
theory Client_Store
  imports Keys Sha256
begin

text \<open>
  \<open>internal/node/client_store.go\<close>: the store of client credentials that every server relay of
  a node shares.  The four Go maps are partial functions; each method runs under the store's
  mutex, so it is one step from store to store.  \<open>LookupClientSecret\<close> and \<open>credentialMaps\<close>
  copy the byte slices they hand over, so no slice of the store is shared and a value model
  is exact.

  The interface the relays and the Kboard reporter rely on is the locale
  \<open>credential_directory\<close>, interpreted on the store at the end.
\<close>

section \<open>Data\<close>

record ClientCredential =
  cred_ClientID :: string
  cred_Secret :: bytes
  cred_UserID :: int

record KboardUser =
  user_ID :: int
  user_UUID :: string
  user_Token :: string
  user_ClientID :: string
  user_KLESSClientID :: string
  user_ClientSecret :: string
  user_KLESSSecret :: string

record dynamicClientStore =
  staticSecrets :: "string \<Rightarrow> bytes option"
  staticUsers :: "string \<Rightarrow> int option"
  dynamicSecrets :: "string \<Rightarrow> bytes option"
  dynamicUsers :: "string \<Rightarrow> int option"

definition newDynamicClientStore :: dynamicClientStore where
  "newDynamicClientStore =
     \<lparr>staticSecrets = Map.empty, staticUsers = Map.empty,
      dynamicSecrets = Map.empty, dynamicUsers = Map.empty\<rparr>"

section \<open>Operations\<close>

text \<open>
  The loop of \<open>credentialMaps\<close> over the entries, with the two maps it fills.  Entries without
  a client id or without a secret are skipped; of two entries for one id the later one wins.
\<close>

fun credentialMaps_loop ::
  "(string \<Rightarrow> bytes option) \<Rightarrow> (string \<Rightarrow> int option) \<Rightarrow> ClientCredential list \<Rightarrow>
   (string \<Rightarrow> bytes option) \<times> (string \<Rightarrow> int option)"
where
  "credentialMaps_loop nextSecrets nextUsers [] = (nextSecrets, nextUsers)"
| "credentialMaps_loop nextSecrets nextUsers (entry # entries) =
     (let clientID = trim_space (cred_ClientID entry)
      in if clientID = [] \<or> length (cred_Secret entry) = 0
         then credentialMaps_loop nextSecrets nextUsers entries
         else credentialMaps_loop (nextSecrets(clientID \<mapsto> cred_Secret entry))
                (nextUsers(clientID \<mapsto> cred_UserID entry)) entries)"

definition credentialMaps ::
  "ClientCredential list \<Rightarrow> (string \<Rightarrow> bytes option) \<times> (string \<Rightarrow> int option)"
where
  "credentialMaps entries = credentialMaps_loop Map.empty Map.empty entries"

definition LookupClientSecret :: "dynamicClientStore \<Rightarrow> string \<Rightarrow> bytes option" where
  "LookupClientSecret s clientID =
     (case dynamicSecrets s clientID of
        Some secret \<Rightarrow> Some secret
      | None \<Rightarrow> staticSecrets s clientID)"

text \<open>A missing key of a Go map reads as the zero value.\<close>

definition map_or_zero :: "(string \<Rightarrow> int option) \<Rightarrow> string \<Rightarrow> int" where
  "map_or_zero m clientID = (case m clientID of None \<Rightarrow> 0 | Some v \<Rightarrow> v)"

definition UserID :: "dynamicClientStore \<Rightarrow> string \<Rightarrow> int" where
  "UserID s clientID =
     (let userID = map_or_zero (dynamicUsers s) clientID
      in if userID > 0 then userID else map_or_zero (staticUsers s) clientID)"

definition SnapshotSize :: "dynamicClientStore \<Rightarrow> nat" where
  "SnapshotSize s = card (dom (staticSecrets s)) + card (dom (dynamicSecrets s))"

definition SetStatic :: "ClientCredential list \<Rightarrow> dynamicClientStore \<Rightarrow> dynamicClientStore" where
  "SetStatic entries s =
     (let (secrets, users) = credentialMaps entries
      in s\<lparr>staticSecrets := secrets, staticUsers := users\<rparr>)"

text \<open>
  The two \<open>range\<close> loops of \<open>AddStatic\<close> store every pair of the new maps; the pairs have
  different keys, so the order of the iteration does not matter and the result is \<open>++\<close>.
\<close>

definition AddStatic :: "ClientCredential list \<Rightarrow> dynamicClientStore \<Rightarrow> dynamicClientStore" where
  "AddStatic entries s =
     (let (secrets, users) = credentialMaps entries
      in s\<lparr>staticSecrets := staticSecrets s ++ secrets, staticUsers := staticUsers s ++ users\<rparr>)"

definition ReplaceDynamic :: "ClientCredential list \<Rightarrow> dynamicClientStore \<Rightarrow> dynamicClientStore" where
  "ReplaceDynamic entries s =
     (let (secrets, users) = credentialMaps entries
      in s\<lparr>dynamicSecrets := secrets, dynamicUsers := users\<rparr>)"

section \<open>Users of the panel\<close>

definition user_secret_label :: string where
  "user_secret_label = ''Knode KLESS user secret v1''"

definition deriveUserClientSecret :: "string \<Rightarrow> string \<Rightarrow> string \<Rightarrow> bytes" where
  "deriveUserClientSecret nodeSecret userUUID token =
     sha256_Sum256 (bytes_of_string
       (join [CHR 0x0A] [user_secret_label, trim_space nodeSecret, trim_space userUUID,
                         trim_space token]))"

definition clientIDForUser :: "KboardUser \<Rightarrow> string" where
  "clientIDForUser user =
     (if user_KLESSClientID user \<noteq> [] then user_KLESSClientID user
      else if user_ClientID user \<noteq> [] then user_ClientID user
      else if user_UUID user \<noteq> [] then user_UUID user
      else if user_ID user > 0 then itoa (user_ID user)
      else [])"

section \<open>What the maps hold\<close>

text \<open>An entry the store keeps, and the last kept entry for a client id.\<close>

definition usable :: "ClientCredential \<Rightarrow> bool" where
  "usable entry \<longleftrightarrow> trim_space (cred_ClientID entry) \<noteq> [] \<and> cred_Secret entry \<noteq> []"

definition last_for :: "string \<Rightarrow> ClientCredential list \<Rightarrow> ClientCredential option" where
  "last_for clientID entries =
     find (\<lambda>e. usable e \<and> trim_space (cred_ClientID e) = clientID) (rev entries)"

lemma find_append: "find P (xs @ ys) = (case find P xs of None \<Rightarrow> find P ys | Some x \<Rightarrow> Some x)"
  by (induction xs) auto

lemma last_for_Cons:
  "last_for clientID (e # entries) =
     (case last_for clientID entries of
        Some x \<Rightarrow> Some x
      | None \<Rightarrow> if usable e \<and> trim_space (cred_ClientID e) = clientID then Some e else None)"
  by (simp add: last_for_def find_append split: option.splits)

lemma last_for_Nil [simp]: "last_for clientID [] = None"
  by (simp add: last_for_def)

lemma last_for_Some:
  "last_for clientID entries = Some e \<Longrightarrow>
     e \<in> set entries \<and> usable e \<and> trim_space (cred_ClientID e) = clientID"
  unfolding last_for_def by (drule find_Some_mem) auto

lemma last_for_None:
  "last_for clientID entries = None \<longleftrightarrow>
     (\<forall>e \<in> set entries. usable e \<longrightarrow> trim_space (cred_ClientID e) \<noteq> clientID)"
  by (auto simp: last_for_def find_None_iff)

lemma credentialMaps_loop_eq:
  "credentialMaps_loop ms mu entries =
     (ms ++ (\<lambda>c. map_option cred_Secret (last_for c entries)),
      mu ++ (\<lambda>c. map_option cred_UserID (last_for c entries)))"
proof (induction entries arbitrary: ms mu)
  case Nil
  show ?case by (simp add: map_add_def)
next
  case (Cons e entries)
  show ?case
    by (auto simp: Cons.IH Let_def last_for_Cons map_add_def fun_eq_iff usable_def
        split: option.splits)
qed

lemma credentialMaps_eq:
  "credentialMaps entries =
     ((\<lambda>c. map_option cred_Secret (last_for c entries)),
      (\<lambda>c. map_option cred_UserID (last_for c entries)))"
  by (simp add: credentialMaps_def credentialMaps_loop_eq map_add_def cong: option.case_cong)

definition secrets_of :: "ClientCredential list \<Rightarrow> string \<Rightarrow> bytes option" where
  "secrets_of entries clientID = map_option cred_Secret (last_for clientID entries)"

definition users_of :: "ClientCredential list \<Rightarrow> string \<Rightarrow> int option" where
  "users_of entries clientID = map_option cred_UserID (last_for clientID entries)"

lemma store_op_eqs:
  "SetStatic entries s = s\<lparr>staticSecrets := secrets_of entries, staticUsers := users_of entries\<rparr>"
  "AddStatic entries s = s\<lparr>staticSecrets := staticSecrets s ++ secrets_of entries,
                          staticUsers := staticUsers s ++ users_of entries\<rparr>"
  "ReplaceDynamic entries s =
     s\<lparr>dynamicSecrets := secrets_of entries, dynamicUsers := users_of entries\<rparr>"
  by (simp_all add: SetStatic_def AddStatic_def ReplaceDynamic_def credentialMaps_eq
      secrets_of_def [abs_def] users_of_def [abs_def])

lemma LookupClientSecret_eq: "LookupClientSecret s = staticSecrets s ++ dynamicSecrets s"
  by (simp add: LookupClientSecret_def map_add_def fun_eq_iff)

section \<open>Invariant\<close>

definition well_keyed :: "(string \<Rightarrow> bytes option) \<Rightarrow> (string \<Rightarrow> int option) \<Rightarrow> bool" where
  "well_keyed secrets users \<longleftrightarrow>
     dom secrets = dom users \<and> finite (dom secrets) \<and>
     (\<forall>c secret. secrets c = Some secret \<longrightarrow> c \<noteq> [] \<and> trim_space c = c \<and> secret \<noteq> [])"

definition store_inv :: "dynamicClientStore \<Rightarrow> bool" where
  "store_inv s \<longleftrightarrow>
     well_keyed (staticSecrets s) (staticUsers s) \<and> well_keyed (dynamicSecrets s) (dynamicUsers s)"

lemma well_keyed_empty: "well_keyed Map.empty Map.empty"
  by (simp add: well_keyed_def)

lemma dom_last_for_finite: "finite (dom (\<lambda>c. last_for c entries))"
proof (rule finite_subset)
  show "dom (\<lambda>c. last_for c entries) \<subseteq> (\<lambda>e. trim_space (cred_ClientID e)) ` set entries"
    by (auto dest!: last_for_Some)
qed simp

lemma well_keyed_credentials: "well_keyed (secrets_of entries) (users_of entries)"
proof -
  have dom: "dom (secrets_of entries) = dom (\<lambda>c. last_for c entries)"
    "dom (users_of entries) = dom (\<lambda>c. last_for c entries)"
    by (auto simp: secrets_of_def users_of_def)
  have "c \<noteq> [] \<and> trim_space c = c \<and> secret \<noteq> []" if "secrets_of entries c = Some secret" for c secret
    using that by (auto simp: secrets_of_def usable_def dest!: last_for_Some)
  then show ?thesis
    by (simp add: well_keyed_def dom dom_last_for_finite)
qed

lemma well_keyed_add:
  "well_keyed s u \<Longrightarrow> well_keyed s' u' \<Longrightarrow> well_keyed (s ++ s') (u ++ u')"
  by (auto simp: well_keyed_def)

lemma store_inv_new [simp]: "store_inv newDynamicClientStore"
  by (simp add: store_inv_def newDynamicClientStore_def well_keyed_empty)

lemma store_inv_ops [simp]:
  "store_inv s \<Longrightarrow> store_inv (SetStatic entries s)"
  "store_inv s \<Longrightarrow> store_inv (AddStatic entries s)"
  "store_inv s \<Longrightarrow> store_inv (ReplaceDynamic entries s)"
  by (simp_all add: store_inv_def store_op_eqs well_keyed_credentials well_keyed_add)

text \<open>
  The size the store reports counts a client id twice when it has a static and a dynamic
  entry: it is an upper bound of the ids that can log in, and exact when no id has both.
\<close>

lemma SnapshotSize_bound:
  assumes "store_inv s"
  shows "card (dom (LookupClientSecret s)) \<le> SnapshotSize s"
proof -
  have "card (dom (dynamicSecrets s) \<union> dom (staticSecrets s))
      \<le> card (dom (dynamicSecrets s)) + card (dom (staticSecrets s))"
    by (rule card_Un_le)
  then show ?thesis by (simp add: SnapshotSize_def LookupClientSecret_eq)
qed

section \<open>The directory interface\<close>

text \<open>
  What a relay and the reporter rely on: \<open>find_secret\<close> and \<open>find_user\<close> answer by client id,
  \<open>replace\<close> installs the current user list of the panel, \<open>add\<close> the credentials of a
  configuration file.
\<close>

locale credential_directory =
  fixes find_secret :: "'s \<Rightarrow> string \<Rightarrow> bytes option"
    and fixed :: "'s \<Rightarrow> string \<Rightarrow> bytes option"
    and add :: "ClientCredential list \<Rightarrow> 's \<Rightarrow> 's"
    and replace :: "ClientCredential list \<Rightarrow> 's \<Rightarrow> 's"
  assumes find_replace: "find_secret (replace cs s) = fixed s ++ secrets_of cs"
    and fixed_replace: "fixed (replace cs s) = fixed s"
    and fixed_add: "fixed (add cs s) = fixed s ++ secrets_of cs"
    and replace_add: "replace ds (add cs (replace ds' s)) = replace ds (add cs s)"
begin

text \<open>Only the last user list counts.\<close>

lemma replace_last: "find_secret (replace cs (replace ds s)) = find_secret (replace cs s)"
  by (simp add: find_replace fixed_replace)

lemma replace_revokes:
  assumes "fixed s c = None" and "\<forall>e \<in> set cs. trim_space (cred_ClientID e) \<noteq> c"
  shows "find_secret (replace cs s) c = None"
  using assms by (simp add: find_replace secrets_of_def last_for_None map_add_None)

lemma replace_grants:
  assumes "last_for c cs = Some e"
  shows "find_secret (replace cs s) c = Some (cred_Secret e)"
  using assms by (simp add: find_replace secrets_of_def map_add_Some_iff)

text \<open>A sequence of user lists leaves the fixed credentials alone.\<close>

lemma fixed_foldl: "fixed (foldl (\<lambda>s cs. replace cs s) s css) = fixed s"
  by (induction css arbitrary: s) (auto simp: fixed_replace)

lemma find_after_replacements:
  assumes "css \<noteq> []"
  shows "find_secret (foldl (\<lambda>s cs. replace cs s) s css) = fixed s ++ secrets_of (last css)"
proof -
  obtain ds d where css: "css = ds @ [d]" using assms by (metis append_butlast_last_id)
  then show ?thesis by (simp add: find_replace fixed_foldl)
qed

lemma fixed_kept:
  assumes "css \<noteq> []" and "\<forall>e \<in> set (last css). trim_space (cred_ClientID e) \<noteq> c"
  shows "find_secret (foldl (\<lambda>s cs. replace cs s) s css) c = fixed s c"
proof -
  have "secrets_of (last css) c = None"
    using assms(2) by (simp add: secrets_of_def last_for_None)
  then show ?thesis by (simp add: find_after_replacements [OF assms(1)] map_add_def)
qed

end

interpretation store: credential_directory LookupClientSecret staticSecrets AddStatic ReplaceDynamic
  by unfold_locales (simp_all add: LookupClientSecret_eq store_op_eqs)

lemma foldl_store_inv:
  "store_inv s \<Longrightarrow> store_inv (foldl (\<lambda>s cs. ReplaceDynamic cs s) s css)"
  by (induction css arbitrary: s) auto

section \<open>User ids and derived secrets\<close>

lemma UserID_ReplaceDynamic:
  assumes "last_for c cs = Some e" and "cred_UserID e > 0"
  shows "UserID (ReplaceDynamic cs s) c = cred_UserID e"
  using assms by (simp add: UserID_def store_op_eqs users_of_def map_or_zero_def)

lemma UserID_revoked:
  assumes "last_for c cs = None" and "\<forall>u. staticUsers s c = Some u \<longrightarrow> u = 0"
  shows "UserID (ReplaceDynamic cs s) c = 0"
  using assms by (auto simp: UserID_def store_op_eqs users_of_def map_or_zero_def split: option.splits)

lemma deriveUserClientSecret_length [simp]: "length (deriveUserClientSecret n u t) = 32"
  by (simp add: deriveUserClientSecret_def)

lemma itoa_pos_nonempty: "itoa i \<noteq> []"
  by (simp add: itoa_def)

lemma clientIDForUser_empty_iff:
  "clientIDForUser user = [] \<longleftrightarrow>
     user_KLESSClientID user = [] \<and> user_ClientID user = [] \<and> user_UUID user = [] \<and> user_ID user \<le> 0"
  by (auto simp: clientIDForUser_def itoa_pos_nonempty)

text \<open>
  The text the secret is the digest of.  Its parts are separated by line breaks, so the
  triple is recoverable when none of the trimmed parts contains one: different users have
  different preimages.
\<close>

definition user_preimage :: "string \<Rightarrow> string \<Rightarrow> string \<Rightarrow> bytes" where
  "user_preimage n u t =
     bytes_of_string (join [CHR 0x0A] [user_secret_label, trim_space n, trim_space u, trim_space t])"

lemma deriveUserClientSecret_eq: "deriveUserClientSecret n u t = sha256_Sum256 (user_preimage n u t)"
  by (simp add: deriveUserClientSecret_def user_preimage_def)

lemma split_at_unique:
  assumes "x @ c # xs = y @ c # ys" and "c \<notin> set x" and "c \<notin> set y"
  shows "x = y \<and> xs = ys"
  using assms
proof (induction x arbitrary: y)
  case Nil then show ?case by (cases y) auto
next
  case (Cons a x) then show ?case by (cases y) auto
qed

definition one_line :: "string \<Rightarrow> bool" where
  "one_line s \<longleftrightarrow> CHR 0x0A \<notin> set s"

lemma one_line_trim: "one_line s \<Longrightarrow> one_line (trim_space s)"
  using trim_space_set [of s] by (auto simp: one_line_def)

lemma user_preimage_inj:
  assumes "one_line n" "one_line u" "one_line t" "one_line n'" "one_line u'" "one_line t'"
  shows "user_preimage n u t = user_preimage n' u' t' \<longleftrightarrow>
    trim_space n = trim_space n' \<and> trim_space u = trim_space u' \<and> trim_space t = trim_space t'"
proof
  assume "user_preimage n u t = user_preimage n' u' t'"
  then have eq: "trim_space n @ CHR 0x0A # trim_space u @ CHR 0x0A # trim_space t
      = trim_space n' @ CHR 0x0A # trim_space u' @ CHR 0x0A # trim_space t'"
    by (simp add: user_preimage_def del: bytes_of_string_append)
  note lines = assms [THEN one_line_trim, unfolded one_line_def]
  from split_at_unique [OF eq lines(1,4)]
  have 1: "trim_space n = trim_space n'"
    and eq2: "trim_space u @ CHR 0x0A # trim_space t = trim_space u' @ CHR 0x0A # trim_space t'"
    by auto
  from split_at_unique [OF eq2 lines(2,5)] 1
  show "trim_space n = trim_space n' \<and> trim_space u = trim_space u' \<and> trim_space t = trim_space t'"
    by simp
qed (simp add: user_preimage_def)

end
