(* ===== verification/Net_Address.thy ===== *)
theory Net_Address
  imports Externals Duration
begin

text \<open>
  The address functions of Go's \<open>net\<close>, \<open>net/url\<close> and \<open>net/textproto\<close> packages that the node
  calls: joining and splitting host and port, the host name of a URL, canonical header keys.
\<close>

section \<open>Searching bytes\<close>

fun index_of :: "char \<Rightarrow> string \<Rightarrow> nat option" where
  "index_of c [] = None"
| "index_of c (x # xs) = (if x = c then Some 0 else map_option Suc (index_of c xs))"

fun last_index_of :: "char \<Rightarrow> string \<Rightarrow> nat option" where
  "last_index_of c [] = None"
| "last_index_of c (x # xs) =
     (case last_index_of c xs of
        Some n \<Rightarrow> Some (Suc n)
      | None \<Rightarrow> if x = c then Some 0 else None)"

lemma index_of_None: "index_of c s = None \<longleftrightarrow> c \<notin> set s"
  by (induction s) auto

lemma last_index_of_None: "last_index_of c s = None \<longleftrightarrow> c \<notin> set s"
  by (induction s) (auto split: option.splits)

lemma index_of_append: "c \<notin> set xs \<Longrightarrow> index_of c (xs @ c # ys) = Some (length xs)"
  by (induction xs) auto

lemma last_index_of_append: "c \<notin> set ys \<Longrightarrow> last_index_of c (xs @ c # ys) = Some (length xs)"
  by (induction xs) (auto simp: last_index_of_None [THEN iffD2])

section \<open>Host and port\<close>

text \<open>\<open>net.JoinHostPort\<close>: a host with a colon is an IPv6 literal and gets brackets.\<close>

definition JoinHostPort :: "string \<Rightarrow> string \<Rightarrow> string" where
  "JoinHostPort host port =
     (if CHR '':'' \<in> set host then ''['' @ host @ '']:'' @ port else host @ '':'' @ port)"

definition addr_error :: "string \<Rightarrow> string \<Rightarrow> go_error" where
  "addr_error addr why = Err (''address '' @ addr @ '': '' @ why)"

definition quoted :: "char \<Rightarrow> string" where
  "quoted c = [CHR 0x27, c, CHR 0x27]"

text \<open>The last two checks of \<open>SplitHostPort\<close>, with the offsets \<open>j\<close> and \<open>k\<close> they start at.\<close>

definition split_rest :: "string \<Rightarrow> nat \<Rightarrow> nat \<Rightarrow> nat \<Rightarrow> string \<Rightarrow> go_error + string \<times> string" where
  "split_rest hostport i j k host =
     (if CHR ''['' \<in> set (drop j hostport) then Inl (addr_error hostport (''unexpected '' @ quoted (CHR ''['') @ '' in address''))
      else if CHR '']'' \<in> set (drop k hostport) then Inl (addr_error hostport (''unexpected '' @ quoted (CHR '']'') @ '' in address''))
      else Inr (host, drop (i + 1) hostport))"

definition SplitHostPort :: "string \<Rightarrow> go_error + string \<times> string" where
  "SplitHostPort hostport =
     (case last_index_of (CHR '':'') hostport of
        None \<Rightarrow> Inl (addr_error hostport ''missing port in address'')
      | Some i \<Rightarrow>
          if hd hostport = CHR ''['' then
            (case index_of (CHR '']'') hostport of
               None \<Rightarrow> Inl (addr_error hostport (''missing '' @ quoted (CHR '']'') @ '' in address''))
             | Some e \<Rightarrow>
                 if e + 1 = length hostport then Inl (addr_error hostport ''missing port in address'')
                 else if e + 1 = i then split_rest hostport i 1 (e + 1) (take (e - 1) (drop 1 hostport))
                 else if hostport ! (e + 1) = CHR '':'' then
                   Inl (addr_error hostport ''too many colons in address'')
                 else Inl (addr_error hostport ''missing port in address''))
          else
            (let host = take i hostport
             in if CHR '':'' \<in> set host then Inl (addr_error hostport ''too many colons in address'')
                else split_rest hostport i 0 0 host))"

definition no_brackets :: "string \<Rightarrow> bool" where
  "no_brackets s \<longleftrightarrow> CHR ''['' \<notin> set s \<and> CHR '']'' \<notin> set s"

text \<open>Splitting undoes joining, for IPv6 literals too.\<close>

lemma split_join:
  assumes "no_brackets host" and "no_brackets port" and "CHR '':'' \<notin> set port"
  shows "SplitHostPort (JoinHostPort host port) = Inr (host, port)"
proof (cases "CHR '':'' \<in> set host")
  case True
  define s where "s = CHR ''['' # host @ CHR '']'' # CHR '':'' # port"
  have join: "JoinHostPort host port = s" using True by (simp add: JoinHostPort_def s_def)
  have last: "last_index_of (CHR '':'') s = Some (length host + 2)"
    using last_index_of_append [OF assms(3), of "CHR ''['' # host @ [CHR '']'']"] by (simp add: s_def)
  have first: "index_of (CHR '']'') s = Some (length host + 1)"
    using index_of_append [of "CHR '']''" "CHR ''['' # host" "CHR '':'' # port"] assms(1)
    by (simp add: s_def no_brackets_def)
  have "split_rest s (length host + 2) 1 (length host + 2) host = Inr (host, port)"
    using assms by (simp add: split_rest_def s_def no_brackets_def)
  then show ?thesis
    by (simp add: join SplitHostPort_def last first) (simp add: s_def)
next
  case False
  define s where "s = host @ CHR '':'' # port"
  have join: "JoinHostPort host port = s" using False by (simp add: JoinHostPort_def s_def)
  have last: "last_index_of (CHR '':'') s = Some (length host)"
    using last_index_of_append [OF assms(3), of host] by (simp add: s_def)
  have "hd s \<noteq> CHR ''[''"
    using assms(1) by (cases host) (auto simp: s_def no_brackets_def)
  moreover have "split_rest s (length host) 0 0 host = Inr (host, port)"
    using assms by (simp add: split_rest_def s_def no_brackets_def)
  ultimately show ?thesis
    using False by (simp add: join SplitHostPort_def last Let_def) (simp add: s_def)
qed

section \<open>The host name of a URL\<close>

definition digits_only :: "string \<Rightarrow> bool" where
  "digits_only s \<longleftrightarrow> list_all is_digit s"

definition validOptionalPort :: "string \<Rightarrow> bool" where
  "validOptionalPort port \<longleftrightarrow>
     (case port of [] \<Rightarrow> True | c # rest \<Rightarrow> c = CHR '':'' \<and> digits_only rest)"

definition strip_brackets :: "string \<Rightarrow> string" where
  "strip_brackets host =
     (if prefix ''['' host \<and> suffix '']'' host then take (length host - 2) (drop 1 host) else host)"

text \<open>\<open>URL.Hostname\<close> on the host part of a URL.\<close>

definition url_hostname :: "string \<Rightarrow> string" where
  "url_hostname host =
     (case last_index_of (CHR '':'') host of
        Some i \<Rightarrow> if validOptionalPort (drop i host) then strip_brackets (take i host)
                  else strip_brackets host
      | None \<Rightarrow> strip_brackets host)"

text \<open>\<open>http.NewRequest\<close> parses the URL and drops an empty port of its host.\<close>

definition hasPort :: "string \<Rightarrow> bool" where
  "hasPort s \<longleftrightarrow>
     (case last_index_of (CHR '':'') s of
        None \<Rightarrow> False
      | Some i \<Rightarrow> (case last_index_of (CHR '']'') s of None \<Rightarrow> True | Some j \<Rightarrow> j < i))"

definition removeEmptyPort :: "string \<Rightarrow> string" where
  "removeEmptyPort host = (if hasPort host then trim_suffix '':'' host else host)"

definition request_hostname :: "env \<Rightarrow> string \<Rightarrow> go_error + string" where
  "request_hostname E rawURL =
     (case url_Parse E rawURL of
        Inl e \<Rightarrow> Inl e
      | Inr u \<Rightarrow> Inr (url_hostname (removeEmptyPort (url_Host u))))"

section \<open>Header keys\<close>

text \<open>
  \<open>textproto.CanonicalMIMEHeaderKey\<close>: a key made of token bytes gets an upper-case letter at
  its start and after each hyphen and lower case elsewhere; any other key is left alone.
\<close>

definition valid_header_byte :: "char \<Rightarrow> bool" where
  "valid_header_byte c \<longleftrightarrow>
     c \<in> set ''!#$%&*+-.^_|~0123456789abcdefghijklmnopqrstuvwxyzABCDEFGHIJKLMNOPQRSTUVWXYZ'' \<or>
     of_char c \<in> {0x27, 0x60 :: nat}"

definition ascii_upper :: "char \<Rightarrow> char" where
  "ascii_upper c =
     (let n = (of_char c :: nat) in if 0x61 \<le> n \<and> n \<le> 0x7A then char_of (n - 0x20) else c)"

fun canonical_from :: "bool \<Rightarrow> string \<Rightarrow> string" where
  "canonical_from up [] = []"
| "canonical_from up (c # cs) =
     (if up then ascii_upper c else ascii_lower c) # canonical_from (c = CHR ''-'') cs"

definition CanonicalHeaderKey :: "string \<Rightarrow> string" where
  "CanonicalHeaderKey s = (if list_all valid_header_byte s then canonical_from True s else s)"

end
