(* ===== verification/Transition_Systems.thy ===== *)
theory Transition_Systems
  imports Main
begin

text \<open>
  The two contracts the step relations of the development share: an invariant that every step
  keeps, and a measure that every step lowers.
\<close>

locale invariant_system =
  fixes step :: "'s \<Rightarrow> 's \<Rightarrow> bool"
    and start :: 's
    and inv :: "'s \<Rightarrow> bool"
  assumes inv_start: "inv start"
    and inv_step: "step s t \<Longrightarrow> inv s \<Longrightarrow> inv t"
begin

lemma reachable: "step\<^sup>*\<^sup>* start s \<Longrightarrow> inv s"
  by (induction rule: rtranclp_induct) (auto intro: inv_start inv_step)

lemma after_steps: "(step ^^ n) start s \<Longrightarrow> inv s"
  by (intro reachable) (rule relpowp_imp_rtranclp)

end

locale terminating_system = invariant_system +
  fixes work :: "'a \<Rightarrow> nat"
  assumes work_step: "step s t \<Longrightarrow> inv s \<Longrightarrow> work t < work s"
begin

lemma steps_bounded: "(step ^^ n) start s \<Longrightarrow> n + work s \<le> work start"
proof (induction n arbitrary: s)
  case (Suc n)
  then obtain r where r: "(step ^^ n) start r" "step r s" by auto
  from work_step [OF r(2) after_steps [OF r(1)]] Suc.IH [OF r(1)] show ?case by simp
qed simp

text \<open>Every state that can be reached can be run to one from which no step is possible.\<close>

lemma runs_out:
  assumes "step\<^sup>*\<^sup>* start s"
  shows "\<exists>t. step\<^sup>*\<^sup>* s t \<and> (\<forall>u. \<not> step t u)"
  using assms
proof (induction "work s" arbitrary: s rule: less_induct)
  case less
  show ?case
  proof (cases "\<exists>u. step s u")
    case True
    then obtain u where u: "step s u" by blast
    with less.prems have "step\<^sup>*\<^sup>* start u" by (rule rtranclp.rtrancl_into_rtrancl)
    from less.hyps [OF work_step [OF u reachable [OF less.prems]] this] u show ?thesis
      by (meson converse_rtranclp_into_rtranclp)
  qed blast
qed

end

end
