(* ===== verification/Access_Log.thy ===== *)
theory Access_Log
  imports Net_Address Transition_Systems "HOL-Library.Word"
begin

text \<open>
  \<open>internal/node/access_log.go\<close>: the bounded queue of access records that waits for the next
  report to the panel, and the construction of a record.  A buffer pointer is an option
  (\<open>None\<close> is nil); each method runs under the buffer's mutex and is one step.

  The interface of the queue is the locale \<open>bounded_queue\<close>, interpreted on the buffer.  The
  life of the records from the relay that makes them to the panel that accepts them is the
  step relation \<open>log_step\<close>.
\<close>

section \<open>Data\<close>

record RelayTarget =
  Host :: string
  Port :: "16 word"

record kboardAccessLogItem =
  al_UserID :: "int option"
  al_ClientID :: string
  al_KLESSClientID :: string
  al_Domain :: string
  al_Host :: string
  al_URI :: string
  al_Protocol :: string
  al_RemoteAddr :: string
  al_AccessedAt :: int

record accessLogBuffer =
  log_items :: "kboardAccessLogItem list"

definition maxAccessLogQueueSize :: nat where
  "maxAccessLogQueueSize = 10000"

definition maxAccessLogBatchSize :: int where
  "maxAccessLogBatchSize = 5000"

definition newAccessLogBuffer :: "accessLogBuffer option" where
  "newAccessLogBuffer = Some \<lparr>log_items = []\<rparr>"

section \<open>The queue\<close>

definition Record ::
  "kboardAccessLogItem \<Rightarrow> accessLogBuffer option \<Rightarrow> bool \<times> accessLogBuffer option"
where
  "Record item p =
     (case p of
        None \<Rightarrow> (False, p)
      | Some b \<Rightarrow>
          if trim_space (al_Domain item) = [] then (False, p)
          else if length (log_items b) \<ge> maxAccessLogQueueSize then (False, p)
          else (True, Some (b\<lparr>log_items := log_items b @ [item]\<rparr>)))"

definition Drain ::
  "int \<Rightarrow> accessLogBuffer option \<Rightarrow> kboardAccessLogItem list \<times> accessLogBuffer option"
where
  "Drain limit p =
     (case p of
        None \<Rightarrow> ([], p)
      | Some b \<Rightarrow>
          if limit \<le> 0 then ([], p)
          else if length (log_items b) = 0 then ([], p)
          else if int (length (log_items b)) \<le> limit then (log_items b, Some (b\<lparr>log_items := []\<rparr>))
          else (take (nat limit) (log_items b), Some (b\<lparr>log_items := drop (nat limit) (log_items b)\<rparr>)))"

definition Restore ::
  "kboardAccessLogItem list \<Rightarrow> accessLogBuffer option \<Rightarrow> accessLogBuffer option"
where
  "Restore items p =
     (case p of
        None \<Rightarrow> p
      | Some b \<Rightarrow>
          if length items = 0 then p
          else (let restored = items @ log_items b
                in Some (b\<lparr>log_items :=
                     (if length restored > maxAccessLogQueueSize
                      then take maxAccessLogQueueSize restored else restored)\<rparr>)))"

section \<open>Records\<close>

definition protocolForTarget :: "string \<Rightarrow> 16 word \<Rightarrow> string" where
  "protocolForTarget network port =
     (if equal_fold (trim_space network) ''udp'' then ''udp''
      else if port = 80 then ''http''
      else if port = 443 then ''https''
      else ''tcp'')"

definition targetURI :: "string \<Rightarrow> RelayTarget \<Rightarrow> string" where
  "targetURI protocol target =
     (let hostPort = JoinHostPort (trim_space (Host target)) (itoa (uint (Port target)));
          protocol = (if protocol = [] then ''tcp'' else protocol)
      in protocol @ ''://'' @ hostPort)"

definition accessLogItem ::
  "env \<Rightarrow> string \<Rightarrow> int \<Rightarrow> RelayTarget \<Rightarrow> string \<Rightarrow> string \<Rightarrow> int \<Rightarrow> kboardAccessLogItem"
where
  "accessLogItem E clientID userID target network remoteAddr now =
     (let host = trim_space (Host target);
          protocol = protocolForTarget network (Port target)
      in \<lparr>al_UserID = (if userID > 0 then Some userID else None),
          al_ClientID = trim_space clientID,
          al_KLESSClientID = trim_space clientID,
          al_Domain = ToLower E host,
          al_Host = ToLower E host,
          al_URI = targetURI protocol target,
          al_Protocol = protocol,
          al_RemoteAddr = trim_space remoteAddr,
          al_AccessedAt = now\<rparr>)"

section \<open>The queue interface\<close>

text \<open>
  \<open>push\<close> appends at the end when the element is \<open>wanted\<close> and there is room, \<open>take_batch\<close>
  removes from the front, \<open>put_back\<close> returns a batch to the front and drops what does not fit
  at the end.
\<close>

locale bounded_queue =
  fixes elems :: "'q \<Rightarrow> 'a list"
    and cap :: nat
    and wanted :: "'a \<Rightarrow> bool"
    and push :: "'a \<Rightarrow> 'q \<Rightarrow> bool \<times> 'q"
    and take_batch :: "int \<Rightarrow> 'q \<Rightarrow> 'a list \<times> 'q"
    and put_back :: "'a list \<Rightarrow> 'q \<Rightarrow> 'q"
  assumes push_accepts: "fst (push x q) \<longleftrightarrow> wanted x \<and> length (elems q) < cap"
    and push_elems: "elems (snd (push x q)) = (if fst (push x q) then elems q @ [x] else elems q)"
    and batch_elems: "fst (take_batch n q) = take (nat n) (elems q)"
      "elems (snd (take_batch n q)) = drop (nat n) (elems q)"
    and put_back_elems: "length (elems q) \<le> cap \<Longrightarrow> elems (put_back xs q) = take cap (xs @ elems q)"
begin

definition bounded :: "'q \<Rightarrow> bool" where
  "bounded q \<longleftrightarrow> length (elems q) \<le> cap"

lemma bounded_push: "bounded q \<Longrightarrow> bounded (snd (push x q))"
  using push_accepts [of x q] by (auto simp: bounded_def push_elems)

lemma bounded_batch: "bounded q \<Longrightarrow> bounded (snd (take_batch n q))"
  by (simp add: bounded_def batch_elems)

lemma bounded_put_back: "bounded q \<Longrightarrow> bounded (put_back xs q)"
  by (simp add: bounded_def put_back_elems)

lemma batch_size: "0 \<le> n \<Longrightarrow> int (length (fst (take_batch n q))) \<le> n"
  by (simp add: batch_elems)

lemma batch_split: "fst (take_batch n q) @ elems (snd (take_batch n q)) = elems q"
  by (simp add: batch_elems)

text \<open>Putting a batch back undoes taking it.\<close>

lemma put_back_batch:
  "bounded q \<Longrightarrow> elems (put_back (fst (take_batch n q)) (snd (take_batch n q))) = elems q"
  by (simp add: bounded_def batch_elems put_back_elems)

lemma put_back_prefix: "bounded q \<Longrightarrow> prefix (elems (put_back xs q)) (xs @ elems q)"
  by (simp add: bounded_def put_back_elems take_is_prefix del: take_append)

lemma put_back_length:
  "bounded q \<Longrightarrow> length (elems (put_back xs q)) = min cap (length xs + length (elems q))"
  by (simp add: bounded_def put_back_elems)

text \<open>Pushing one element after the other keeps those that are wanted as long as there is room.\<close>

definition push_all :: "'a list \<Rightarrow> 'q \<Rightarrow> 'q" where
  "push_all xs q = foldl (\<lambda>q x. snd (push x q)) q xs"

lemma push_all_Nil: "push_all [] q = q"
  by (simp add: push_all_def)

lemma push_all_Cons: "push_all (x # xs) q = push_all xs (snd (push x q))"
  by (simp add: push_all_def)

lemma push_all_elems:
  "elems (push_all xs q) = elems q @ take (cap - length (elems q)) (filter wanted xs)"
proof (induction xs arbitrary: q)
  case Nil
  show ?case by (simp add: push_all_Nil)
next
  case (Cons x xs)
  have room: "cap - length (elems q) = Suc (cap - Suc (length (elems q)))" if "length (elems q) < cap"
    using that by simp
  show ?case
    using room by (auto simp: push_all_Cons Cons.IH push_elems push_accepts)
qed

lemma bounded_push_all: "bounded q \<Longrightarrow> bounded (push_all xs q)"
  by (simp add: bounded_def push_all_elems)

end

definition buffered :: "accessLogBuffer option \<Rightarrow> kboardAccessLogItem list" where
  "buffered p = (case p of None \<Rightarrow> [] | Some b \<Rightarrow> log_items b)"

text \<open>The buffer of a node is never nil; the interpretation is on the struct behind the pointer.\<close>

lemma buffered_Some [simp]: "buffered (Some b) = log_items b"
  by (simp add: buffered_def)

definition Record_here where
  "Record_here item b = map_prod id the (Record item (Some b))"

definition Drain_here where
  "Drain_here n b = map_prod id the (Drain n (Some b))"

definition Restore_here where
  "Restore_here items b = the (Restore items (Some b))"

lemma Record_Some: "Record item (Some b) = map_prod id Some (Record_here item b)"
  by (simp add: Record_here_def Record_def)

lemma Drain_Some: "Drain n (Some b) = map_prod id Some (Drain_here n b)"
  by (simp add: Drain_here_def Drain_def)

lemma Restore_Some: "Restore items (Some b) = Some (Restore_here items b)"
  by (simp add: Restore_here_def Restore_def Let_def)

lemma Restore_here_items:
  "length (log_items b) \<le> maxAccessLogQueueSize \<Longrightarrow>
     log_items (Restore_here items b) = take maxAccessLogQueueSize (items @ log_items b)"
  by (auto simp: Restore_here_def Restore_def Let_def)

interpretation access_queue: bounded_queue log_items maxAccessLogQueueSize
    "\<lambda>item. trim_space (al_Domain item) \<noteq> []" Record_here Drain_here Restore_here
  by unfold_locales
    (auto simp: Record_here_def Record_def Drain_here_def Drain_def Restore_here_items)

text \<open>The records of several relays, one call of \<open>Record\<close> after the other.\<close>

definition record_all ::
  "kboardAccessLogItem list \<Rightarrow> accessLogBuffer option \<Rightarrow> accessLogBuffer option"
where
  "record_all items p = foldl (\<lambda>p item. snd (Record item p)) p items"

lemma record_all_Nil [simp]: "record_all [] p = p"
  by (simp add: record_all_def)

lemma record_all_Cons [simp]: "record_all (item # items) p = record_all items (snd (Record item p))"
  by (simp add: record_all_def)

lemma record_all_None [simp]: "record_all items None = None"
  by (induction items) (simp_all add: Record_def)

lemma record_all_Some: "record_all items (Some b) = Some (access_queue.push_all items b)"
  by (induction items arbitrary: b) (simp_all add: Record_Some access_queue.push_all_Nil access_queue.push_all_Cons)

section \<open>From the relay to the panel\<close>

text \<open>
  One reporter goroutine drains the buffer, posts the batch and puts it back when the post
  fails; the relays record concurrently, also while a batch is in flight.  The ghost fields
  say what the panel has acknowledged, what \<open>Record\<close> accepted, and how many accepted records
  a batch that came back displaced.  No other step may lose one: it would break the accounting of
  \<open>log_inv\<close> and the sequence of \<open>log_step_keeps\<close>.
\<close>

record log_state =
  buffer :: accessLogBuffer
  in_flight :: "kboardAccessLogItem list"
  acknowledged :: "kboardAccessLogItem list"
  accepted :: "kboardAccessLogItem list"
  lost :: nat

definition log_start :: log_state where
  "log_start = \<lparr>buffer = \<lparr>log_items = []\<rparr>, in_flight = [], acknowledged = [], accepted = [], lost = 0\<rparr>"

inductive log_step :: "log_state \<Rightarrow> log_state \<Rightarrow> bool" where
  recorded: "Record item (Some (buffer s)) = (True, Some b) \<Longrightarrow>
     log_step s (s\<lparr>buffer := b, accepted := accepted s @ [item]\<rparr>)"
| refused: "Record item (Some (buffer s)) = (False, Some b) \<Longrightarrow>
     log_step s (s\<lparr>buffer := b\<rparr>)"
| drained: "in_flight s = [] \<Longrightarrow>
     Drain maxAccessLogBatchSize (Some (buffer s)) = (items, Some b) \<Longrightarrow> items \<noteq> [] \<Longrightarrow>
     log_step s (s\<lparr>buffer := b, in_flight := items\<rparr>)"
| posted: "in_flight s \<noteq> [] \<Longrightarrow>
     log_step s (s\<lparr>in_flight := [], acknowledged := acknowledged s @ in_flight s\<rparr>)"
| failed: "in_flight s \<noteq> [] \<Longrightarrow> Restore (in_flight s) (Some (buffer s)) = Some b \<Longrightarrow>
     log_step s (s\<lparr>buffer := b, in_flight := [],
       lost := lost s + (length (in_flight s) + length (log_items (buffer s)) - length (log_items b))\<rparr>)"

definition log_inv :: "log_state \<Rightarrow> bool" where
  "log_inv s \<longleftrightarrow>
     length (log_items (buffer s)) \<le> maxAccessLogQueueSize \<and>
     int (length (in_flight s)) \<le> maxAccessLogBatchSize \<and>
     subseq (acknowledged s @ in_flight s @ log_items (buffer s)) (accepted s) \<and>
     length (accepted s) =
       length (acknowledged s) + length (in_flight s) + length (log_items (buffer s)) + lost s"

lemma log_inv_start: "log_inv log_start"
  by (simp add: log_inv_def log_start_def maxAccessLogBatchSize_def)

lemma subseq_append_prefix: "subseq (xs @ ys) zs \<Longrightarrow> prefix us ys \<Longrightarrow> subseq (xs @ us) zs"
  by (meson list_emb_append_mono prefix_imp_subseq subseq_order.order_refl subseq_order.order_trans)

lemma log_inv_failed:
  assumes inv: "log_inv s" and restored: "Restore (in_flight s) (Some (buffer s)) = Some b"
  shows "log_inv (s\<lparr>buffer := b, in_flight := [],
    lost := lost s + (length (in_flight s) + length (log_items (buffer s)) - length (log_items b))\<rparr>)"
proof -
  have bounded: "access_queue.bounded (buffer s)"
    using inv by (simp add: access_queue.bounded_def log_inv_def)
  have b: "b = Restore_here (in_flight s) (buffer s)"
    using restored by (simp add: Restore_Some)
  have len: "length (log_items b) =
      min maxAccessLogQueueSize (length (in_flight s) + length (log_items (buffer s)))"
    unfolding b by (rule access_queue.put_back_length [OF bounded])
  have "subseq (acknowledged s @ log_items b) (accepted s)"
    using inv access_queue.put_back_prefix [OF bounded, of "in_flight s"]
    unfolding b log_inv_def by (auto intro: subseq_append_prefix)
  then show ?thesis
    using inv len by (auto simp: log_inv_def maxAccessLogBatchSize_def)
qed

text \<open>The sequences the operations work on, from the steps of the relation.\<close>

lemma Record_True:
  "Record item (Some b) = (True, Some b') \<Longrightarrow>
     log_items b' = log_items b @ [item] \<and> length (log_items b) < maxAccessLogQueueSize"
  by (auto simp: Record_def split: if_splits)

lemma Record_False: "Record item (Some b) = (False, Some b') \<Longrightarrow> b' = b"
  by (auto simp: Record_def split: if_splits)

lemma Drain_split:
  assumes "Drain n (Some b) = (items, Some b')"
  shows "items @ log_items b' = log_items b" "items = take (nat n) (log_items b)"
    "log_items b' = drop (nat n) (log_items b)"
proof -
  have eq: "items = fst (Drain_here n b)" "b' = snd (Drain_here n b)"
    using assms by (auto simp: Drain_Some map_prod_def split: prod.splits)
  show "items @ log_items b' = log_items b" unfolding eq by (rule access_queue.batch_split)
  show "items = take (nat n) (log_items b)" "log_items b' = drop (nat n) (log_items b)"
    unfolding eq by (rule access_queue.batch_elems)+
qed

lemma log_inv_step: "log_step s t \<Longrightarrow> log_inv s \<Longrightarrow> log_inv t"
proof (induction rule: log_step.induct)
  case (recorded item s b)
  note rec = Record_True [OF recorded.hyps]
  show ?case
    using rec recorded.prems list_emb_append_mono [of "(=)" "acknowledged s @ in_flight s @ log_items (buffer s)"
        "accepted s" "[item]" "[item]"]
    by (auto simp: log_inv_def)
next
  case (refused item s b)
  with Record_False [OF refused.hyps] show ?case by (simp add: log_inv_def)
next
  case (drained s items b)
  note split = Drain_split [OF drained.hyps(2)]
  have "length (log_items (buffer s)) = length items + length (log_items b)"
    by (metis split(1) length_append)
  moreover have "int (length items) \<le> maxAccessLogBatchSize"
    unfolding split(2) by (simp add: maxAccessLogBatchSize_def)
  ultimately show ?case
    using drained.prems drained.hyps(1) split(1) by (auto simp: log_inv_def)
next
  case (posted s)
  then show ?case by (auto simp: log_inv_def maxAccessLogBatchSize_def)
next
  case (failed s b)
  then show ?case by (rule_tac log_inv_failed)
qed

interpretation log: invariant_system log_step log_start log_inv
  by unfold_locales (simp_all add: log_inv_start log_inv_step)

text \<open>With room for a batch that comes back, a step loses nothing and keeps the order.\<close>

lemma log_step_keeps:
  assumes "log_step s t" and "log_inv s"
    and room: "length (in_flight s) + length (log_items (buffer s)) \<le> maxAccessLogQueueSize"
  shows "lost t = lost s \<and> (\<exists>new. accepted t = accepted s @ new \<and>
    acknowledged t @ in_flight t @ log_items (buffer t) =
      acknowledged s @ in_flight s @ log_items (buffer s) @ new)"
  using assms(1)
proof (cases rule: log_step.cases)
  case (recorded item b)
  then show ?thesis using Record_True [OF recorded(2)] by simp
next
  case (refused item b)
  then show ?thesis using Record_False [OF refused(2)] by simp
next
  case (drained items b)
  with Drain_split(1) [OF drained(3)] show ?thesis by simp
next
  case posted
  then show ?thesis by simp
next
  case (failed b)
  then have b: "b = Restore_here (in_flight s) (buffer s)" by (simp add: Restore_Some)
  have bounded: "access_queue.bounded (buffer s)"
    using assms(2) by (simp add: access_queue.bounded_def log_inv_def)
  have "log_items b = in_flight s @ log_items (buffer s)"
    using access_queue.put_back_elems [of "buffer s" "in_flight s"] bounded room
    unfolding b by (simp add: access_queue.bounded_def)
  with failed show ?thesis by simp
qed

lemma log_nothing_lost:
  assumes "log_inv s" and "lost s = 0"
  shows "acknowledged s @ in_flight s @ log_items (buffer s) = accepted s"
  using assms by (auto simp: log_inv_def dest: subseq_same_length)

text \<open>Several records in a row are steps of the relation.\<close>

lemma log_step_Record:
  assumes "Record item (Some (buffer s)) = (acc, Some b)"
  obtains t where "log_step s t" "buffer t = b" "in_flight t = in_flight s" "acknowledged t = acknowledged s"
    "accepted t = accepted s @ (if acc then [item] else [])" "lost t = lost s"
proof (cases acc)
  case True
  with assms have "Record item (Some (buffer s)) = (True, Some b)" by simp
  from log_step.recorded [OF this] show ?thesis
    by (rule that) (simp_all add: True Record_True [OF \<open>Record item (Some (buffer s)) = (True, Some b)\<close>])
next
  case False
  with assms have "Record item (Some (buffer s)) = (False, Some b)" by simp
  from log_step.refused [OF this] show ?thesis
    by (rule that) (simp_all add: False Record_False [OF \<open>Record item (Some (buffer s)) = (False, Some b)\<close>])
qed

lemma log_steps_record_all:
  "\<exists>t. log_step\<^sup>*\<^sup>* s t \<and> record_all items (Some (buffer s)) = Some (buffer t) \<and> in_flight t = in_flight s \<and>
     acknowledged t = acknowledged s \<and> lost t = lost s \<and>
     accepted t = accepted s @ take (maxAccessLogQueueSize - length (log_items (buffer s)))
       (filter (\<lambda>item. trim_space (al_Domain item) \<noteq> []) items)"
proof (induction items arbitrary: s)
  case Nil
  show ?case by auto
next
  case (Cons item items)
  obtain acc b where rec: "Record item (Some (buffer s)) = (acc, Some b)"
    by (cases "Record_here item (buffer s)") (simp add: Record_Some)
  then obtain t where t: "log_step s t" "buffer t = b" "in_flight t = in_flight s" "acknowledged t = acknowledged s"
    "accepted t = accepted s @ (if acc then [item] else [])" "lost t = lost s"
    by (rule log_step_Record)
  obtain u where u: "log_step\<^sup>*\<^sup>* t u" "record_all items (Some (buffer t)) = Some (buffer u)"
    "in_flight u = in_flight t" "acknowledged u = acknowledged t" "lost u = lost t"
    "accepted u = accepted t @ take (maxAccessLogQueueSize - length (log_items (buffer t)))
       (filter (\<lambda>item. trim_space (al_Domain item) \<noteq> []) items)"
    using Cons.IH [of t] by blast
  have "accepted u = accepted s @ take (maxAccessLogQueueSize - length (log_items (buffer s)))
       (filter (\<lambda>item. trim_space (al_Domain item) \<noteq> []) (item # items))"
  proof (cases acc)
    case True
    with rec have "Record item (Some (buffer s)) = (True, Some b)" by simp
    note kept = Record_True [OF this]
    then have "maxAccessLogQueueSize - length (log_items (buffer s)) =
        Suc (maxAccessLogQueueSize - length (log_items (buffer t)))"
      using t(2) by (simp add: Suc_diff_Suc)
    moreover have "trim_space (al_Domain item) \<noteq> []" using rec True by (simp add: Record_def split: if_splits)
    ultimately show ?thesis using t(5) u(6) True by simp
  next
    case False
    with rec t(2) have "buffer t = buffer s"
      "trim_space (al_Domain item) = [] \<or> maxAccessLogQueueSize - length (log_items (buffer s)) = 0"
      by (auto simp: Record_def split: if_splits)
    then show ?thesis using t(5) u(6) False by auto
  qed
  with rec t u show ?case by (auto intro: converse_rtranclp_into_rtranclp)
qed

end
