(* ===== verification/Go_Errors.thy ===== *)
theory Go_Errors
  imports Externals
begin

text \<open>
  The texts of error values: \<open>Error()\<close> of what \<open>errors.New\<close> and \<open>fmt.Errorf\<close> build, with
  \<open>%q\<close> as \<open>strconv.Quote\<close> does it.  The text matters to the program in one place, the dial
  error a relay sends to its client, where the empty text means success.
\<close>

definition quote_char :: "char \<Rightarrow> string" where
  "quote_char c =
     (let n = (of_char c :: nat)
      in if n = 0x22 then [CHR 0x5C, CHR 0x22]
         else if n = 0x5C then [CHR 0x5C, CHR 0x5C]
         else if n = 0x07 then CHR 0x5C # ''a''
         else if n = 0x08 then CHR 0x5C # ''b''
         else if n = 0x0C then CHR 0x5C # ''f''
         else if n = 0x0A then CHR 0x5C # ''n''
         else if n = 0x0D then CHR 0x5C # ''r''
         else if n = 0x09 then CHR 0x5C # ''t''
         else if n = 0x0B then CHR 0x5C # ''v''
         else if n < 0x20 \<or> n = 0x7F then [CHR 0x5C, CHR ''x'', hex_char (n div 16), hex_char (n mod 16)]
         else [c])"

definition strconv_Quote :: "env \<Rightarrow> string \<Rightarrow> string" where
  "strconv_Quote E s =
     (if list_all is_ascii s then [CHR 0x22] @ concat (map quote_char s) @ [CHR 0x22]
      else unicode_Quote E s)"

fun Error_text :: "env \<Rightarrow> go_error \<Rightarrow> string" where
  "Error_text E (Err t) = t"
| "Error_text E (ErrQ t s) = t @ '' '' @ strconv_Quote E s"
| "Error_text E (Wrap t e) = t @ '': '' @ Error_text E e"
| "Error_text E (WrapIdx t i e) = t @ ''['' @ nat_digits i @ '']: '' @ Error_text E e"
| "Error_text E (WrapQ t s e) = t @ '' '' @ strconv_Quote E s @ '': '' @ Error_text E e"
| "Error_text E (WrapNum e n) = Error_text E e @ '': '' @ nat_digits n"
| "Error_text E (Corrupt n) = ''illegal base64 data at input byte '' @ nat_digits n"
| "Error_text E EOF = ''EOF''"
| "Error_text E NetClosed = ''use of closed network connection''"
| "Error_text E CtxCanceled = ''context canceled''"
| "Error_text E CtxDeadline = ''context deadline exceeded''"
| "Error_text E (Ext t) = t"

lemma Error_text_empty_iff:
  "Error_text E e = [] \<longleftrightarrow> e = Err [] \<or> e = Ext []"
  by (cases e) auto

end
