(* ===== verification/Relay_Protocol.thy ===== *)
theory Relay_Protocol
  imports Access_Log Go_Errors Base64
begin

text \<open>
  \<open>internal/node/relay_protocol.go\<close>: the requests and responses a client and the relay
  exchange inside the secure channel.  The wire format is that of \<open>kray/pkg/relay\<close>, an
  external module: the record \<open>relay_lib\<close> holds what the program uses of it.  A writer is the
  bytes it is given, a reader the bytes it still holds.
\<close>

section \<open>The external module\<close>

record relay_request =
  rq_Command :: nat
  rq_Address :: RelayTarget

record relay_response =
  rs_Status :: nat
  rs_Message :: string

record relay_lib =
  CommandTCPConnect :: nat
  CommandUDPAssociate :: nat
  StatusOK :: nat
  StatusDialFailed :: nat
  StatusUnsupportedCommand :: nat
  MaxDatagramSize :: nat
  ErrInvalidAddress :: go_error
  ErrUnsupportedCommand :: go_error
  Address_String :: "RelayTarget \<Rightarrow> string"
  TCPConnect :: "string \<Rightarrow> 16 word \<Rightarrow> relay_request"
  WriteRequest :: "relay_request \<Rightarrow> go_error + bytes"
  ReadRequest :: "bytes \<Rightarrow> go_error + relay_request \<times> bytes"
  WriteResponse :: "relay_response \<Rightarrow> go_error + bytes"
  ReadResponse :: "bytes \<Rightarrow> go_error + relay_response \<times> bytes"

section \<open>Requests and responses\<close>

definition writeConnectRequest :: "relay_lib \<Rightarrow> RelayTarget \<Rightarrow> go_error + bytes" where
  "writeConnectRequest L target = WriteRequest L (TCPConnect L (Host target) (Port target))"

definition readRelayRequest :: "relay_lib \<Rightarrow> bytes \<Rightarrow> go_error + relay_request \<times> bytes" where
  "readRelayRequest L r = ReadRequest L r"

text \<open>\<open>fmt.Errorf("%w: %d", relay.ErrUnsupportedCommand, req.Command)\<close>.\<close>

definition unsupported_command :: "relay_lib \<Rightarrow> nat \<Rightarrow> go_error" where
  "unsupported_command L command = WrapNum (ErrUnsupportedCommand L) command"

definition readConnectRequest :: "relay_lib \<Rightarrow> bytes \<Rightarrow> go_error + RelayTarget" where
  "readConnectRequest L r =
     (case ReadRequest L r of
        Inl e \<Rightarrow> Inl e
      | Inr (req, _) \<Rightarrow>
          if rq_Command req \<noteq> CommandTCPConnect L
          then Inl (unsupported_command L (rq_Command req))
          else Inr (rq_Address req))"

text \<open>The response \<open>writeConnectResponse\<close> sends, and the write itself.\<close>

definition connect_response :: "relay_lib \<Rightarrow> string \<Rightarrow> relay_response" where
  "connect_response L errText =
     (if errText = [] then \<lparr>rs_Status = StatusOK L, rs_Message = []\<rparr>
      else \<lparr>rs_Status = StatusDialFailed L, rs_Message = errText\<rparr>)"

definition writeConnectResponse :: "relay_lib \<Rightarrow> string \<Rightarrow> go_error + bytes" where
  "writeConnectResponse L errText = WriteResponse L (connect_response L errText)"

definition readConnectResponse :: "relay_lib \<Rightarrow> bytes \<Rightarrow> go_error option" where
  "readConnectResponse L r =
     (case ReadResponse L r of
        Inl e \<Rightarrow> Some e
      | Inr (resp, _) \<Rightarrow>
          if rs_Status resp = StatusOK L then None
          else if rs_Message resp = [] then Some (Err ''relay connection rejected'')
          else Some (Err (rs_Message resp)))"

section \<open>What the node assumes of the wire format\<close>

text \<open>
  A message that was written is read back, whatever follows it; the two statuses differ and
  \<open>TCPConnect\<close> builds the request it is named after.
\<close>

definition relay_codec :: "relay_lib \<Rightarrow> bool" where
  "relay_codec L \<longleftrightarrow>
     (\<forall>req out rest. WriteRequest L req = Inr out \<longrightarrow> ReadRequest L (out @ rest) = Inr (req, rest)) \<and>
     (\<forall>resp out rest. WriteResponse L resp = Inr out \<longrightarrow> ReadResponse L (out @ rest) = Inr (resp, rest)) \<and>
     (\<forall>host port. TCPConnect L host port =
        \<lparr>rq_Command = CommandTCPConnect L, rq_Address = \<lparr>Host = host, Port = port\<rparr>\<rparr>) \<and>
     StatusOK L \<noteq> StatusDialFailed L"

lemma relay_codecD:
  assumes "relay_codec L"
  shows "WriteRequest L req = Inr out \<Longrightarrow> ReadRequest L (out @ rest) = Inr (req, rest)"
    and "WriteResponse L resp = Inr out \<Longrightarrow> ReadResponse L (out @ rest) = Inr (resp, rest)"
    and "TCPConnect L host port =
           \<lparr>rq_Command = CommandTCPConnect L, rq_Address = \<lparr>Host = host, Port = port\<rparr>\<rparr>"
    and "StatusOK L \<noteq> StatusDialFailed L"
  using assms unfolding relay_codec_def by blast+

lemma connect_request_roundtrip:
  assumes "relay_codec L" and "writeConnectRequest L target = Inr out"
  shows "readConnectRequest L (out @ rest) = Inr target"
  using assms(2)
  by (simp add: writeConnectRequest_def readConnectRequest_def relay_codecD [OF assms(1)])

lemma connect_response_roundtrip:
  assumes "relay_codec L" and "writeConnectResponse L errText = Inr out"
  shows "readConnectResponse L (out @ rest) = (if errText = [] then None else Some (Err errText))"
  using assms(2) relay_codecD(4) [OF assms(1)]
  by (simp add: writeConnectResponse_def readConnectResponse_def relay_codecD(2) [OF assms(1)]
      connect_response_def)

section \<open>A wire format that has these properties\<close>

text \<open>
  Used by the witnesses: two bytes of length before each field and \<open>Inl\<close> for text that is
  too long, so that the hypotheses can be seen to hold for a concrete format.
\<close>

definition put_text :: "string \<Rightarrow> bytes" where
  "put_text s = word_of_nat (length s div 256) # word_of_nat (length s mod 256) # map of_char s"

definition get_text :: "bytes \<Rightarrow> (string \<times> bytes) option" where
  "get_text bs =
     (case bs of
        a # b # rest \<Rightarrow>
          (let n = unat a * 256 + unat b
           in if n \<le> length rest then Some (map (\<lambda>w. char_of (unat w)) (take n rest), drop n rest)
              else None)
      | _ \<Rightarrow> None)"

lemma char_of_unat_of_char [simp]: "char_of (unat (of_char c :: 8 word)) = c"
  by (simp only: unat_of_char char_of_char)

lemma get_put_text:
  assumes "length s < 65536" shows "get_text (put_text s @ rest) = Some (s, rest)"
proof -
  have "unat (word_of_nat (length s div 256) :: 8 word) = length s div 256"
    "unat (word_of_nat (length s mod 256) :: 8 word) = length s mod 256"
    using assms by (simp_all add: unat_of_nat)
  then show ?thesis by (simp add: put_text_def get_text_def comp_def)
qed

definition put_response :: "relay_response \<Rightarrow> go_error + bytes" where
  "put_response r =
     (if rs_Status r < 256 \<and> length (rs_Message r) < 65536
      then Inr (word_of_nat (rs_Status r) # put_text (rs_Message r)) else Inl (Ext ''too long''))"

definition get_response :: "bytes \<Rightarrow> go_error + relay_response \<times> bytes" where
  "get_response bs =
     (case bs of
        [] \<Rightarrow> Inl EOF
      | b # bs \<Rightarrow>
          (case get_text bs of
             None \<Rightarrow> Inl EOF
           | Some (s, rest) \<Rightarrow> Inr (\<lparr>rs_Status = unat b, rs_Message = s\<rparr>, rest)))"

definition put_request :: "relay_request \<Rightarrow> go_error + bytes" where
  "put_request r =
     (if rq_Command r < 256 \<and> length (Host (rq_Address r)) < 65536
      then Inr (word_of_nat (rq_Command r) # word_of_nat (unat (Port (rq_Address r)) div 256) #
        word_of_nat (unat (Port (rq_Address r)) mod 256) # put_text (Host (rq_Address r)))
      else Inl (Ext ''too long''))"

definition get_request :: "bytes \<Rightarrow> go_error + relay_request \<times> bytes" where
  "get_request bs =
     (case bs of
        c # hi # lo # bs \<Rightarrow>
          (case get_text bs of
             None \<Rightarrow> Inl EOF
           | Some (s, rest) \<Rightarrow>
               Inr (\<lparr>rq_Command = unat c,
                     rq_Address = \<lparr>Host = s, Port = word_of_nat (unat hi * 256 + unat lo)\<rparr>\<rparr>, rest))
      | _ \<Rightarrow> Inl EOF)"

definition sample_relay :: relay_lib where
  "sample_relay =
     \<lparr>CommandTCPConnect = 1, CommandUDPAssociate = 3, StatusOK = 0, StatusDialFailed = 1,
      StatusUnsupportedCommand = 2, MaxDatagramSize = 65535,
      ErrInvalidAddress = Ext ''invalid address'', ErrUnsupportedCommand = Ext ''unsupported command'',
      Address_String = (\<lambda>a. JoinHostPort (Host a) (itoa (uint (Port a)))),
      TCPConnect = (\<lambda>host port. \<lparr>rq_Command = 1, rq_Address = \<lparr>Host = host, Port = port\<rparr>\<rparr>),
      WriteRequest = put_request, ReadRequest = get_request,
      WriteResponse = put_response, ReadResponse = get_response\<rparr>"

lemma get_put_response: "put_response r = Inr out \<Longrightarrow> get_response (out @ rest) = Inr (r, rest)"
  by (cases r) (auto simp: put_response_def get_response_def get_put_text unat_of_nat split: if_splits)

lemma word16_bytes: "word_of_nat (unat (p :: 16 word) div 256 * 256 + unat p mod 256) = p"
  by (simp only: div_mult_mod_eq) simp

lemma byte_of_high: "unat (word_of_nat (unat (p :: 16 word) div 256) :: 8 word) = unat p div 256"
proof -
  have "unat p < 65536" using unsigned_less [of p, where ?'a = nat] by simp
  then have "unat p div 256 < 256" by simp
  then show ?thesis by (simp add: unat_of_nat)
qed

lemma byte_of_low: "unat (word_of_nat (n mod 256) :: 8 word) = n mod 256"
  by (simp add: unat_of_nat)

lemma get_put_request: "put_request r = Inr out \<Longrightarrow> get_request (out @ rest) = Inr (r, rest)"
proof -
  assume put: "put_request r = Inr out"
  then have out: "out = word_of_nat (rq_Command r) # word_of_nat (unat (Port (rq_Address r)) div 256) #
        word_of_nat (unat (Port (rq_Address r)) mod 256) # put_text (Host (rq_Address r))"
    and len: "rq_Command r < 256" "length (Host (rq_Address r)) < 65536"
    by (auto simp: put_request_def split: if_splits)
  have "unat (word_of_nat (rq_Command r) :: 8 word) = rq_Command r" using len(1) by (simp add: unat_of_nat)
  then show ?thesis
    using len(2) unfolding out
    by (cases r) (simp add: get_request_def get_put_text byte_of_high byte_of_low word16_bytes)
qed

lemma sample_relay_codec: "relay_codec sample_relay"
  by (simp add: relay_codec_def sample_relay_def get_put_request get_put_response)

end
