(* ===== verification/Metrics.thy ===== *)
theory Metrics
  imports Duration "HOL-Library.Word" "HOL-Library.Multiset"
begin

text \<open>
  \<open>internal/node/metrics.go\<close>: the atomic counters of a node.  \<open>active\<close> is an \<open>atomic.Int64\<close>,
  the others are \<open>atomic.Uint64\<close>: all are 64-bit words here, \<open>active\<close> read as signed.  Every
  method is one atomic operation per counter.  Times are nanoseconds.
\<close>

section \<open>Counters\<close>

record Metrics =
  m_startedAt :: int
  m_active :: "64 word"
  m_total :: "64 word"
  m_rejected :: "64 word"
  m_transportErrs :: "64 word"
  m_handshakeErrs :: "64 word"
  m_proxyErrs :: "64 word"
  m_upBytes :: "64 word"
  m_downBytes :: "64 word"

record MetricsSnapshot =
  sn_StartedAt :: int
  sn_UptimeSeconds :: int
  sn_Active :: int
  sn_Total :: nat
  sn_Rejected :: nat
  sn_TransportErrors :: nat
  sn_HandshakeErrors :: nat
  sn_ProxyErrors :: nat
  sn_UpstreamBytes :: nat
  sn_DownstreamBytes :: nat

definition NewMetrics :: "int \<Rightarrow> Metrics" where
  "NewMetrics now =
     \<lparr>m_startedAt = now, m_active = 0, m_total = 0, m_rejected = 0, m_transportErrs = 0, m_handshakeErrs = 0,
      m_proxyErrs = 0, m_upBytes = 0, m_downBytes = 0\<rparr>"

definition beginConnection :: "Metrics \<Rightarrow> Metrics" where
  "beginConnection m = m\<lparr>m_active := m_active m + 1, m_total := m_total m + 1\<rparr>"

definition endConnection :: "Metrics \<Rightarrow> Metrics" where
  "endConnection m = m\<lparr>m_active := m_active m + (- 1)\<rparr>"

definition addRejected :: "Metrics \<Rightarrow> Metrics" where
  "addRejected m = m\<lparr>m_rejected := m_rejected m + 1\<rparr>"

definition addTransportError :: "Metrics \<Rightarrow> Metrics" where
  "addTransportError m = m\<lparr>m_transportErrs := m_transportErrs m + 1\<rparr>"

definition addHandshakeError :: "Metrics \<Rightarrow> Metrics" where
  "addHandshakeError m = m\<lparr>m_handshakeErrs := m_handshakeErrs m + 1\<rparr>"

definition addProxyError :: "Metrics \<Rightarrow> Metrics" where
  "addProxyError m = m\<lparr>m_proxyErrs := m_proxyErrs m + 1\<rparr>"

definition addUpBytes :: "64 word \<Rightarrow> Metrics \<Rightarrow> Metrics" where
  "addUpBytes n m = m\<lparr>m_upBytes := m_upBytes m + n\<rparr>"

definition addDownBytes :: "64 word \<Rightarrow> Metrics \<Rightarrow> Metrics" where
  "addDownBytes n m = m\<lparr>m_downBytes := m_downBytes m + n\<rparr>"

text \<open>
  \<open>int64(d.Seconds())\<close>: \<open>Seconds\<close> adds the whole seconds and the rest divided by \<open>1e9\<close> in
  \<open>float64\<close>, the conversion truncates toward zero.
\<close>

definition whole_seconds :: "nat \<Rightarrow> nat" where
  "whole_seconds ns =
     (let sec = ns div 10 ^ 9;
          (fn, fd) = f64_round (ns mod 10 ^ 9) (10 ^ 9);
          (n, d) = f64_round (sec * fd + fn) fd
      in n div d)"

definition seconds_of :: "int \<Rightarrow> int" where
  "seconds_of d = (if d < 0 then - int (whole_seconds (nat (- d))) else int (whole_seconds (nat d)))"

definition Snapshot :: "int \<Rightarrow> Metrics \<Rightarrow> MetricsSnapshot" where
  "Snapshot now m =
     \<lparr>sn_StartedAt = m_startedAt m,
      sn_UptimeSeconds = seconds_of (now - m_startedAt m),
      sn_Active = sint (m_active m),
      sn_Total = unat (m_total m),
      sn_Rejected = unat (m_rejected m),
      sn_TransportErrors = unat (m_transportErrs m),
      sn_HandshakeErrors = unat (m_handshakeErrs m),
      sn_ProxyErrors = unat (m_proxyErrs m),
      sn_UpstreamBytes = unat (m_upBytes m),
      sn_DownstreamBytes = unat (m_downBytes m)\<rparr>"

lemmas metric_op_defs =
  beginConnection_def endConnection_def addRejected_def addTransportError_def
  addHandshakeError_def addProxyError_def addUpBytes_def addDownBytes_def

section \<open>Sequences of updates\<close>

text \<open>
  The counters are updated from many goroutines in any order.  An update is a value, a
  history a list of them; the counters depend only on how often each update occurs.
\<close>

datatype metric_update =
    Begin | End | Rejected | TransportError | HandshakeError | ProxyError
  | UpBytes "64 word" | DownBytes "64 word"

fun apply_update :: "metric_update \<Rightarrow> Metrics \<Rightarrow> Metrics" where
  "apply_update Begin m = beginConnection m"
| "apply_update End m = endConnection m"
| "apply_update Rejected m = addRejected m"
| "apply_update TransportError m = addTransportError m"
| "apply_update HandshakeError m = addHandshakeError m"
| "apply_update ProxyError m = addProxyError m"
| "apply_update (UpBytes n) m = addUpBytes n m"
| "apply_update (DownBytes n) m = addDownBytes n m"

definition apply_updates :: "metric_update list \<Rightarrow> Metrics \<Rightarrow> Metrics" where
  "apply_updates us m = fold apply_update us m"

fun up_of :: "metric_update \<Rightarrow> 64 word" where
  "up_of (UpBytes n) = n" | "up_of _ = 0"

fun down_of :: "metric_update \<Rightarrow> 64 word" where
  "down_of (DownBytes n) = n" | "down_of _ = 0"

abbreviation occurs :: "metric_update list \<Rightarrow> metric_update \<Rightarrow> nat" where
  "occurs us u \<equiv> count_list us u"

lemma apply_updates_eq:
  "apply_updates us m =
     \<lparr>m_startedAt = m_startedAt m,
      m_active = m_active m + of_nat (occurs us Begin) - of_nat (occurs us End),
      m_total = m_total m + of_nat (occurs us Begin),
      m_rejected = m_rejected m + of_nat (occurs us Rejected),
      m_transportErrs = m_transportErrs m + of_nat (occurs us TransportError),
      m_handshakeErrs = m_handshakeErrs m + of_nat (occurs us HandshakeError),
      m_proxyErrs = m_proxyErrs m + of_nat (occurs us ProxyError),
      m_upBytes = m_upBytes m + sum_list (map up_of us),
      m_downBytes = m_downBytes m + sum_list (map down_of us)\<rparr>"
  unfolding apply_updates_def
proof (induction us arbitrary: m)
  case Nil
  show ?case by simp
next
  case (Cons u us)
  show ?case by (cases u) (simp_all add: Cons.IH metric_op_defs algebra_simps)
qed

lemma apply_updates_append: "apply_updates (us @ vs) m = apply_updates vs (apply_updates us m)"
  by (simp add: apply_updates_def)

text \<open>The order of the updates does not matter.\<close>

lemma sum_list_mset: "mset us = mset vs \<Longrightarrow> sum_list (map f us) = (sum_list (map f vs) :: 'a :: comm_monoid_add)"
  by (metis mset_map sum_mset_sum_list)

lemma apply_updates_perm:
  assumes "mset us = mset vs" shows "apply_updates us m = apply_updates vs m"
proof -
  have "occurs us u = occurs vs u" for u
    using assms by (metis count_mset)
  then show ?thesis
    by (simp add: apply_updates_eq sum_list_mset [OF assms])
qed

section \<open>Reading the unsigned counters\<close>

lemma unat_of_nat_mod: "unat (of_nat n :: 64 word) = n mod 2 ^ 64"
  by (simp add: unsigned_of_nat take_bit_eq_mod)

lemma unat_sum_list: "unat (sum_list ws :: 64 word) = sum_list (map unat ws) mod 2 ^ 64"
proof -
  have "sum_list ws = (of_nat (sum_list (map unat ws)) :: 64 word)"
    by (induction ws) simp_all
  then show ?thesis by (simp only: unat_of_nat_mod)
qed

text \<open>The byte counts among the updates.\<close>

lemma sum_up_of: "sum_list (map up_of us) = sum_list [n. UpBytes n \<leftarrow> us]"
proof (induction us)
  case (Cons u us)
  then show ?case by (cases u) simp_all
qed simp

lemma sum_down_of: "sum_list (map down_of us) = sum_list [n. DownBytes n \<leftarrow> us]"
proof (induction us)
  case (Cons u us)
  then show ?case by (cases u) simp_all
qed simp

section \<open>Reading the signed counter\<close>

lemma sint_of_int_small:
  assumes "- (2 ^ 63) \<le> i" and "i < 2 ^ 63"
  shows "sint (of_int i :: 64 word) = i"
  using assms by (simp add: sint_sbintrunc' signed_take_bit_int_eq_self)

lemma active_in_range:
  assumes "occurs us End \<le> occurs us Begin" and "occurs us Begin < 2 ^ 63"
  shows "sint (of_nat (occurs us Begin) - of_nat (occurs us End) :: 64 word)
       = int (occurs us Begin) - int (occurs us End)"
proof -
  have "(of_nat (occurs us Begin) - of_nat (occurs us End) :: 64 word)
      = of_int (int (occurs us Begin) - int (occurs us End))"
    by simp
  moreover have "sint (of_int (int (occurs us Begin) - int (occurs us End)) :: 64 word)
      = int (occurs us Begin) - int (occurs us End)"
  proof (rule sint_of_int_small)
    have "int (occurs us Begin) < int (2 ^ 63)" using assms(2) by linarith
    then show "int (occurs us Begin) - int (occurs us End) < 2 ^ 63" by simp
    show "- (2 ^ 63) \<le> int (occurs us Begin) - int (occurs us End)" using assms(1) by simp
  qed
  ultimately show ?thesis by simp
qed

section \<open>What a snapshot shows\<close>

lemma Snapshot_updates:
  "Snapshot moment (apply_updates us (NewMetrics start)) =
     \<lparr>sn_StartedAt = start, sn_UptimeSeconds = seconds_of (moment - start),
      sn_Active = sint (of_nat (occurs us Begin) - of_nat (occurs us End) :: 64 word),
      sn_Total = occurs us Begin mod 2 ^ 64,
      sn_Rejected = occurs us Rejected mod 2 ^ 64,
      sn_TransportErrors = occurs us TransportError mod 2 ^ 64,
      sn_HandshakeErrors = occurs us HandshakeError mod 2 ^ 64,
      sn_ProxyErrors = occurs us ProxyError mod 2 ^ 64,
      sn_UpstreamBytes = sum_list (map unat [n. UpBytes n \<leftarrow> us]) mod 2 ^ 64,
      sn_DownstreamBytes = sum_list (map unat [n. DownBytes n \<leftarrow> us]) mod 2 ^ 64\<rparr>"
  by (simp add: apply_updates_eq NewMetrics_def Snapshot_def unat_of_nat_mod unat_sum_list sum_up_of sum_down_of)

end
