(* ===== verification/Copy_Pair.thy ===== *)
theory Copy_Pair
  imports Prelude Transition_Systems Metrics
begin

text \<open>
  The proxy of a TCP inbound, \<open>(*Service).pipe\<close> (\<open>internal/node/service.go\<close>): two goroutines
  copy one direction each, count the bytes and send the normalised error into a channel of
  capacity 2; the caller waits for one, closes both connections and waits for the other.
  The proxy of the relays is in \<open>Relay_Pipe\<close>.

  The goroutines and the caller interleave, so the proxy is a step relation.  What \<open>io.Copy\<close>
  returns is up to the connections: any byte count and any error.
\<close>

section \<open>Errors of a copy\<close>

definition normalizeCopyError :: "go_error option \<Rightarrow> go_error option" where
  "normalizeCopyError err =
     (case err of
        None \<Rightarrow> None
      | Some e \<Rightarrow> if errors_is e EOF \<or> errors_is e NetClosed then None else Some e)"

lemma normalizeCopyError_idem [simp]:
  "normalizeCopyError (normalizeCopyError err) = normalizeCopyError err"
  by (simp add: normalizeCopyError_def split: option.splits)

section \<open>The step relation\<close>

text \<open>
  A copying goroutine is in \<open>io.Copy\<close>, has counted its bytes and is about to send, or has
  sent.  \<open>received\<close> lists what the caller has taken from the channel.  The last three fields are
  ghosts, the history of the run: what \<open>io.Copy\<close> returned in each goroutine, and the order of
  the sends (\<open>True\<close> for the upward copy).
\<close>

datatype copier = Copying | Counted "go_error option" | Sent

record pair_state =
  up :: copier
  down :: copier
  channel :: "go_error option list"
  received :: "go_error option list"
  closed :: bool
  counters :: Metrics
  got_up :: "(64 word \<times> go_error option) option"
  got_down :: "(64 word \<times> go_error option) option"
  send_order :: "bool list"

definition pair_start :: "Metrics \<Rightarrow> pair_state" where
  "pair_start m =
     \<lparr>up = Copying, down = Copying, channel = [], received = [], closed = False, counters = m,
      got_up = None, got_down = None, send_order = []\<rparr>"

definition channel_capacity :: nat where
  "channel_capacity = 2"

inductive pipe_step :: "pair_state \<Rightarrow> pair_state \<Rightarrow> bool" where
  up_copied: "up s = Copying \<Longrightarrow>
     pipe_step s (s\<lparr>up := Counted (normalizeCopyError err), counters := addUpBytes n (counters s),
       got_up := Some (n, err)\<rparr>)"
| up_sent: "up s = Counted err \<Longrightarrow> length (channel s) < channel_capacity \<Longrightarrow>
     pipe_step s (s\<lparr>up := Sent, channel := channel s @ [err], send_order := send_order s @ [True]\<rparr>)"
| down_copied: "down s = Copying \<Longrightarrow>
     pipe_step s (s\<lparr>down := Counted (normalizeCopyError err), counters := addDownBytes n (counters s),
       got_down := Some (n, err)\<rparr>)"
| down_sent: "down s = Counted err \<Longrightarrow> length (channel s) < channel_capacity \<Longrightarrow>
     pipe_step s (s\<lparr>down := Sent, channel := channel s @ [err], send_order := send_order s @ [False]\<rparr>)"
| first_received: "received s = [] \<Longrightarrow> channel s = err # rest \<Longrightarrow>
     pipe_step s (s\<lparr>received := [err], channel := rest, closed := True\<rparr>)"
| second_received: "received s = [first] \<Longrightarrow> channel s = err # rest \<Longrightarrow>
     pipe_step s (s\<lparr>received := [first, err], channel := rest\<rparr>)"

text \<open>The value returned, once both results are in: the first error, else the second.\<close>

definition pipe_result :: "pair_state \<Rightarrow> go_error option option" where
  "pipe_result s =
     (case received s of
        [err, second] \<Rightarrow> Some (if err \<noteq> None then err else second)
      | _ \<Rightarrow> None)"

section \<open>Invariant\<close>

fun sends :: "copier \<Rightarrow> nat" where
  "sends Sent = 1" | "sends _ = 0"

fun pending :: "copier \<Rightarrow> go_error option set" where
  "pending (Counted err) = {err}" | "pending _ = {}"

definition normal_error :: "go_error option \<Rightarrow> bool" where
  "normal_error err \<longleftrightarrow> normalizeCopyError err = err"

definition pair_inv :: "pair_state \<Rightarrow> bool" where
  "pair_inv s \<longleftrightarrow>
     length (channel s) + length (received s) = sends (up s) + sends (down s) \<and>
     (closed s \<longleftrightarrow> received s \<noteq> []) \<and>
     (\<forall>err \<in> set (channel s) \<union> set (received s) \<union> pending (up s) \<union> pending (down s).
        normal_error err)"

lemma normal_error_normalize [simp]: "normal_error (normalizeCopyError err)"
  by (simp add: normal_error_def)

lemma pair_inv_start: "pair_inv (pair_start m)"
  by (simp add: pair_inv_def pair_start_def)

lemma pair_inv_step: "pipe_step s t \<Longrightarrow> pair_inv s \<Longrightarrow> pair_inv t"
  by (induction rule: pipe_step.induct) (auto simp: pair_inv_def)

lemma sends_le_1: "sends c \<le> 1"
  by (cases c) auto

text \<open>A goroutine that has counted can always send: the channel has room for both.\<close>

lemma sender_not_blocked:
  assumes "pair_inv s" and "up s = Counted err \<or> down s = Counted err"
  shows "length (channel s) < channel_capacity"
  using assms sends_le_1 [of "up s"] sends_le_1 [of "down s"]
  by (auto simp: pair_inv_def channel_capacity_def)

text \<open>When the proxy has returned, both goroutines are done and nothing is left in the channel.\<close>

lemma pipe_result_done:
  assumes "pair_inv s" and "pipe_result s = Some r"
  shows "up s = Sent \<and> down s = Sent \<and> channel s = [] \<and> closed s"
proof -
  from assms(2) obtain a b where "received s = [a, b]"
    by (auto simp: pipe_result_def split: list.splits)
  with assms(1) have "sends (up s) + sends (down s) \<ge> 2" "length (channel s) + 2 = sends (up s) + sends (down s)" "closed s"
    by (auto simp: pair_inv_def)
  then show ?thesis
    using sends_le_1 [of "up s"] sends_le_1 [of "down s"]
    by (cases "up s"; cases "down s") auto
qed

lemma pipe_result_normal:
  "pair_inv s \<Longrightarrow> pipe_result s = Some (Some e) \<Longrightarrow> \<not> errors_is e EOF \<and> \<not> errors_is e NetClosed"
  by (auto simp: pipe_result_def pair_inv_def normal_error_def normalizeCopyError_def
      split: list.splits if_splits option.splits)

section \<open>Progress\<close>

text \<open>
  Every step uses up work: at most six of them.  A proxy that has not returned and none of
  whose copies is still running can take a step.
\<close>

fun copier_work :: "copier \<Rightarrow> nat" where
  "copier_work Copying = 2" | "copier_work (Counted err) = 1" | "copier_work Sent = 0"

definition pair_work :: "pair_state \<Rightarrow> nat" where
  "pair_work s = copier_work (up s) + copier_work (down s) + (2 - length (received s))"

lemma pair_work_step: "pipe_step s t \<Longrightarrow> pair_work t < pair_work s"
  by (induction rule: pipe_step.induct) (auto simp: pair_work_def)

interpretation pipe: terminating_system pipe_step "pair_start m" pair_inv pair_work for m
  by unfold_locales (simp_all add: pair_inv_start pair_inv_step pair_work_step)

lemma pipe_progress:
  assumes "pair_inv s" and "up s \<noteq> Copying" and "down s \<noteq> Copying" and "pipe_result s = None"
  shows "\<exists>t. pipe_step s t"
proof (cases "\<exists>err. up s = Counted err \<or> down s = Counted err")
  case True
  then obtain err where "up s = Counted err \<or> down s = Counted err" by blast
  with sender_not_blocked [OF assms(1) this] show ?thesis
    by (blast intro: up_sent down_sent)
next
  case False
  then have "up s = Sent" "down s = Sent"
    using assms(2,3) by (metis copier.exhaust)+
  then have sum: "length (channel s) + length (received s) = 2"
    using assms(1) by (simp add: pair_inv_def)
  show ?thesis
  proof (cases "received s")
    case Nil
    with sum obtain e es where "channel s = e # es" by (cases "channel s") auto
    with Nil show ?thesis by (blast intro: first_received)
  next
    case (Cons first rest)
    moreover have "rest = []"
      using Cons sum assms(4) by (cases rest; cases "tl rest") (auto simp: pipe_result_def)
    moreover from calculation sum obtain e es where "channel s = e # es"
      by (cases "channel s") auto
    ultimately show ?thesis by (blast intro: second_received)
  qed
qed

section \<open>The proxy as a function\<close>

text \<open>
  What a caller of the proxy can observe: the error it returns and the counters.  Both are a
  function of what the two copies return and of which result arrives first.
\<close>

record copy_outcome =
  up_first :: bool
  up_count :: "64 word"
  up_error :: "go_error option"
  down_count :: "64 word"
  down_error :: "go_error option"

definition pipe_run :: "copy_outcome \<Rightarrow> Metrics \<Rightarrow> go_error option \<times> Metrics" where
  "pipe_run out m =
     (let u = normalizeCopyError (up_error out);
          d = normalizeCopyError (down_error out);
          (err, second) = (if up_first out then (u, d) else (d, u))
      in (if err \<noteq> None then err else second,
          addDownBytes (down_count out) (addUpBytes (up_count out) m)))"

text \<open>What the two copies of a run returned, and which of them sent first.\<close>

definition answers_of ::
  "(64 word \<times> go_error option) option \<Rightarrow> (64 word \<times> go_error option) option \<Rightarrow> bool list \<Rightarrow> copy_outcome option"
where
  "answers_of u d order =
     (case (u, d, order) of
        (Some (un, ue), Some (dn, de), b # _) \<Rightarrow>
          Some \<lparr>up_first = b, up_count = un, up_error = ue, down_count = dn, down_error = de\<rparr>
      | _ \<Rightarrow> None)"

definition pipe_answers :: "pair_state \<Rightarrow> copy_outcome option" where
  "pipe_answers s = answers_of (got_up s) (got_down s) (send_order s)"

section \<open>The history of a run\<close>

text \<open>
  The state in terms of its history: a goroutine past its copy holds the normalised error of it,
  what has been sent is the errors in the order of the sends, and the counters have grown by
  what the copies returned.
\<close>

definition copier_history :: "copier \<Rightarrow> (64 word \<times> go_error option) option \<Rightarrow> bool \<Rightarrow> bool" where
  "copier_history c got sent \<longleftrightarrow>
     (case c of
        Copying \<Rightarrow> got = None \<and> \<not> sent
      | Counted err \<Rightarrow> (\<exists>n e. got = Some (n, e) \<and> err = normalizeCopyError e) \<and> \<not> sent
      | Sent \<Rightarrow> got \<noteq> None \<and> sent)"

definition got_error :: "(64 word \<times> go_error option) option \<Rightarrow> go_error option" where
  "got_error got = (case got of None \<Rightarrow> None | Some (n, e) \<Rightarrow> normalizeCopyError e)"

definition got_bytes :: "(64 word \<times> go_error option) option \<Rightarrow> 64 word" where
  "got_bytes got = (case got of None \<Rightarrow> 0 | Some (n, e) \<Rightarrow> n)"

definition pair_history :: "Metrics \<Rightarrow> pair_state \<Rightarrow> bool" where
  "pair_history m s \<longleftrightarrow>
     copier_history (up s) (got_up s) (True \<in> set (send_order s)) \<and>
     copier_history (down s) (got_down s) (False \<in> set (send_order s)) \<and>
     distinct (send_order s) \<and>
     received s @ channel s = map (\<lambda>b. got_error (if b then got_up s else got_down s)) (send_order s) \<and>
     counters s = addDownBytes (got_bytes (got_down s)) (addUpBytes (got_bytes (got_up s)) m)"

lemma pair_history_start: "pair_history m (pair_start m)"
  by (simp add: pair_history_def pair_start_def copier_history_def got_bytes_def metric_op_defs)

lemma pair_history_step: "pipe_step s t \<Longrightarrow> pair_history m s \<Longrightarrow> pair_history m t"
proof (induction rule: pipe_step.induct)
  case (up_copied s n err)
  then have "got_up s = None" "True \<notin> set (send_order s)" by (auto simp: pair_history_def copier_history_def)
  moreover from this have "\<forall>b \<in> set (send_order s). b = False" by (metis (full_types))
  ultimately show ?case
    using up_copied by (auto simp: pair_history_def copier_history_def got_bytes_def metric_op_defs)
next
  case (up_sent s err)
  then show ?case by (auto simp: pair_history_def copier_history_def got_error_def)
next
  case (down_copied s n err)
  then have "got_down s = None" "False \<notin> set (send_order s)" by (auto simp: pair_history_def copier_history_def)
  moreover from this have "\<forall>b \<in> set (send_order s). b = True" by (metis (full_types))
  ultimately show ?case
    using down_copied by (auto simp: pair_history_def copier_history_def got_bytes_def metric_op_defs)
next
  case (down_sent s err)
  then show ?case by (auto simp: pair_history_def copier_history_def got_error_def)
qed (simp_all add: pair_history_def)

text \<open>A run that has returned, returned and counted what the function says of its own history.\<close>

lemma pipe_run_history:
  assumes "pipe_step\<^sup>*\<^sup>* (pair_start m) s" and "pipe_result s = Some r"
  shows "\<exists>out. pipe_answers s = Some out \<and> pipe_run out m = (r, counters s)"
proof -
  have hist: "pair_history m s"
    using assms(1) by (induction rule: rtranclp_induct) (auto intro: pair_history_start pair_history_step)
  from assms(2) obtain a b where ab: "received s = [a, b]" "r = (if a \<noteq> None then a else b)"
    by (auto simp: pipe_result_def split: list.splits)
  have "channel s = []" "up s = Sent" "down s = Sent"
    using pipe_result_done [OF pipe.reachable [OF assms(1)] assms(2)] by auto
  with hist ab(1) have
    order: "[a, b] = map (\<lambda>b. got_error (if b then got_up s else got_down s)) (send_order s)" "distinct (send_order s)"
    and got: "got_up s \<noteq> None" "got_down s \<noteq> None"
    and count: "counters s = addDownBytes (got_bytes (got_down s)) (addUpBytes (got_bytes (got_up s)) m)"
    by (auto simp: pair_history_def copier_history_def)
  obtain un ue dn de where up: "got_up s = Some (un, ue)" and down: "got_down s = Some (dn, de)" using got by auto
  from order obtain first where "send_order s = [first, \<not> first]"
    by (cases "send_order s"; cases "tl (send_order s)") auto
  with order(1) up down ab(2) count show ?thesis
    by (auto simp: pipe_answers_def answers_of_def pipe_run_def Let_def got_error_def got_bytes_def)
qed

lemma pipe_run_complete:
  "pipe_step\<^sup>*\<^sup>* (pair_start m) s \<Longrightarrow> pipe_result s = Some r \<Longrightarrow> \<exists>out. pipe_run out m = (r, counters s)"
  using pipe_run_history by blast

text \<open>And every history is that of a run.\<close>

lemma pipe_run_reachable:
  "\<exists>s. pipe_step\<^sup>*\<^sup>* (pair_start m) s \<and> pipe_answers s = Some out \<and> pipe_result s = Some (fst (pipe_run out m)) \<and>
       counters s = snd (pipe_run out m)"
proof -
  define u where "u = normalizeCopyError (up_error out)"
  define d where "d = normalizeCopyError (down_error out)"
  define fst_err where "fst_err = (if up_first out then u else d)"
  define snd_err where "snd_err = (if up_first out then d else u)"
  define m2 where "m2 = addDownBytes (down_count out) (addUpBytes (up_count out) m)"
  define s1 where "s1 = (pair_start m)\<lparr>up := Counted u, counters := addUpBytes (up_count out) m,
    got_up := Some (up_count out, up_error out)\<rparr>"
  define s2 where "s2 = s1\<lparr>down := Counted d, counters := m2, got_down := Some (down_count out, down_error out)\<rparr>"
  define s4 where "s4 = s2\<lparr>up := Sent, down := Sent, channel := [fst_err, snd_err],
    send_order := [up_first out, \<not> up_first out]\<rparr>"
  have 1: "pipe_step (pair_start m) s1"
    using up_copied [of "pair_start m" "up_count out" "up_error out"] by (simp add: pair_start_def u_def s1_def)
  have 2: "pipe_step s1 s2"
    using down_copied [of s1 "down_count out" "down_error out"]
    by (simp add: pair_start_def d_def s1_def s2_def m2_def)
  have 3: "pipe_step\<^sup>*\<^sup>* s2 s4"
  proof (cases "up_first out")
    case True
    have "pipe_step s2 (s2\<lparr>up := Sent, channel := [u], send_order := [True]\<rparr>)"
      using up_sent [of s2 u] by (simp add: s1_def s2_def pair_start_def channel_capacity_def)
    moreover have "pipe_step (s2\<lparr>up := Sent, channel := [u], send_order := [True]\<rparr>) s4"
      using down_sent [of "s2\<lparr>up := Sent, channel := [u], send_order := [True]\<rparr>" d] True
      by (simp add: s1_def s2_def s4_def pair_start_def channel_capacity_def fst_err_def snd_err_def)
    ultimately show ?thesis by auto
  next
    case False
    have "pipe_step s2 (s2\<lparr>down := Sent, channel := [d], send_order := [False]\<rparr>)"
      using down_sent [of s2 d] by (simp add: s1_def s2_def pair_start_def channel_capacity_def)
    moreover have "pipe_step (s2\<lparr>down := Sent, channel := [d], send_order := [False]\<rparr>) s4"
      using up_sent [of "s2\<lparr>down := Sent, channel := [d], send_order := [False]\<rparr>" u] False
      by (simp add: s1_def s2_def s4_def pair_start_def channel_capacity_def fst_err_def snd_err_def)
    ultimately show ?thesis by auto
  qed
  have 4: "pipe_step s4 (s4\<lparr>received := [fst_err], channel := [snd_err], closed := True\<rparr>)"
    by (rule first_received) (simp_all add: s4_def s2_def s1_def pair_start_def)
  have 5: "pipe_step (s4\<lparr>received := [fst_err], channel := [snd_err], closed := True\<rparr>)
      (s4\<lparr>closed := True, received := [fst_err, snd_err], channel := []\<rparr>)"
    using second_received [of "s4\<lparr>received := [fst_err], channel := [snd_err], closed := True\<rparr>" fst_err snd_err "[]"]
    by simp
  have "pipe_step\<^sup>*\<^sup>* (pair_start m) (s4\<lparr>closed := True, received := [fst_err, snd_err], channel := []\<rparr>)"
    using 1 2 3 4 5 by (meson converse_rtranclp_into_rtranclp rtranclp.rtrancl_into_rtrancl)
  then show ?thesis
    by (rule_tac exI, rule_tac conjI)
      (auto simp: pipe_answers_def answers_of_def pipe_result_def pipe_run_def Let_def s4_def s2_def s1_def m2_def
        fst_err_def snd_err_def u_def d_def)
qed

end
