(* ===== verification/Server_Relay.thy ===== *)
theory Server_Relay
  imports Config_Idempotent Client_Store Relay_Protocol Copy_Pair
begin

text \<open>
  \<open>internal/node/server_relay.go\<close>: the relay behind a \<open>kless-server\<close> inbound.  It owns the
  signing key, shares the credential store, the counters and the access log with the other
  relays, and serves one connection at a time per call of \<open>Handle\<close>.

  The effects are explicit: a \<open>relay_world\<close> holds the shared state and a trace of what the
  relay does to the outside, oldest first.  What the outside answers (the handshake, the
  request on the wire, dialling, the results of writes and copies) is the argument
  \<open>conn_env\<close> of the handlers.  A cancelled context shows as closed connections, that is, as
  errors of those answers.
\<close>

section \<open>State and trace\<close>

record serverRelay =
  sr_cfg :: ServerKLESSConfig
  sr_signing :: bytes
  sr_listenID :: string

datatype log_event =
    LogHandshake string go_error
  | LogRequest string string go_error
  | LogUnsupported string string nat
  | LogAccess string string string
  | LogTarget string string RelayTarget go_error
  | LogTargetClosed string string RelayTarget go_error
  | LogResponse string string go_error
  | LogClosed string string go_error
  | LogNoRelay string
  | LogUpstream string string go_error
  | LogProxy string go_error

datatype relay_resource = LocalConn | SecureConn | UpstreamConn | UDPSocket

datatype relay_event =
    Opened relay_resource
  | Closed relay_resource
  | Responded relay_response
  | Dialed string
  | SentUDP string bytes
  | SentDatagram RelayTarget bytes
  | Logged log_event

record relay_world =
  w_store :: dynamicClientStore
  w_access :: "accessLogBuffer option"
  w_metrics :: Metrics
  w_trace :: "relay_event list"

definition emit :: "relay_event list \<Rightarrow> relay_world \<Rightarrow> relay_world" where
  "emit evs w = w\<lparr>w_trace := w_trace w @ evs\<rparr>"

definition tally :: "(Metrics \<Rightarrow> Metrics) \<Rightarrow> relay_world \<Rightarrow> relay_world" where
  "tally f w = w\<lparr>w_metrics := f (w_metrics w)\<rparr>"

section \<open>Construction\<close>

fun client_credentials :: "ServerKLESSClientConfig list \<Rightarrow> go_error + ClientCredential list" where
  "client_credentials [] = Inr []"
| "client_credentials (client # clients) =
     (case cc_ClientSecretBytes client of
        Inl e \<Rightarrow> Inl e
      | Inr secret \<Rightarrow>
          (case client_credentials clients of
             Inl e \<Rightarrow> Inl e
           | Inr credentials \<Rightarrow>
               Inr (\<lparr>cred_ClientID = cc_ClientID client, cred_Secret = secret, cred_UserID = 0\<rparr>
                 # credentials)))"

definition staticClientCredentials :: "ServerKLESSConfig \<Rightarrow> go_error + ClientCredential list" where
  "staticClientCredentials cfg =
     (if s_ClientID cfg \<noteq> [] \<and> s_ClientSecret cfg \<noteq> [] then
        (case s_ClientSecretBytes cfg of
           Inl e \<Rightarrow> Inl e
         | Inr secret \<Rightarrow>
             (case client_credentials (s_Clients cfg) of
                Inl e \<Rightarrow> Inl e
              | Inr credentials \<Rightarrow>
                  Inr (\<lparr>cred_ClientID = s_ClientID cfg, cred_Secret = secret, cred_UserID = 0\<rparr>
                    # credentials)))
      else client_credentials (s_Clients cfg))"

text \<open>The relay and the store it leaves behind; a nil store is replaced by a new one.\<close>

definition newServerRelay ::
  "string \<Rightarrow> ServerKLESSConfig \<Rightarrow> dynamicClientStore option \<Rightarrow>
   go_error + serverRelay \<times> dynamicClientStore"
where
  "newServerRelay listenID cfg store0 =
     (case s_ServerSigningPrivateBytes cfg of
        Inl e \<Rightarrow> Inl e
      | Inr privateKey \<Rightarrow>
          (let store = (case store0 of None \<Rightarrow> newDynamicClientStore | Some s \<Rightarrow> s)
           in case staticClientCredentials cfg of
                Inl e \<Rightarrow> Inl e
              | Inr staticCredentials \<Rightarrow>
                  Inr (\<lparr>sr_cfg = cfg, sr_signing = privateKey, sr_listenID = listenID\<rparr>,
                       AddStatic staticCredentials store)))"

definition requireKLESSServerRelay :: "env \<Rightarrow> InboundConfig \<Rightarrow> go_error option" where
  "requireKLESSServerRelay E inbound =
     (if i_Mode inbound \<noteq> InboundModeKLESSServer
      then Some (Err (''inbound '' @ strconv_Quote E (i_Name inbound) @ '' is not kless-server''))
      else if s_ServerSigningPrivate (i_KLESS inbound) = []
      then Some (Err ''server_signing_private is required'')
      else None)"

section \<open>The handshake configuration\<close>

record kless_server_config =
  ks_SigningKey :: bytes
  ks_ClientStore :: "string \<Rightarrow> bytes option"
  ks_Capabilities :: nat
  ks_MaxFramePayload :: int
  ks_PaddingMin :: int
  ks_PaddingMax :: int
  ks_MaxHandshakeSkew :: int
  ks_HandshakeTimeout :: int

definition defaultRelayInt :: "int \<Rightarrow> int \<Rightarrow> int" where
  "defaultRelayInt value fallback = (if value = 0 then fallback else value)"

text \<open>The error of \<open>CapabilityMask\<close> is dropped; its other result is zero then.\<close>

definition serverConfig :: "env \<Rightarrow> serverRelay \<Rightarrow> dynamicClientStore \<Rightarrow> kless_server_config" where
  "serverConfig E r store =
     (let caps = (case CapabilityMask E (sr_cfg r) of Inl _ \<Rightarrow> 0 | Inr c \<Rightarrow> c)
      in \<lparr>ks_SigningKey = sr_signing r,
          ks_ClientStore = LookupClientSecret store,
          ks_Capabilities = caps,
          ks_MaxFramePayload =
            defaultRelayInt (s_MaxFramePayload (sr_cfg r)) (DefaultMaxFramePayload (kless E)),
          ks_PaddingMin = s_PaddingMin (sr_cfg r),
          ks_PaddingMax = s_PaddingMax (sr_cfg r),
          ks_MaxHandshakeSkew = MaxHandshakeSkewDuration E (sr_cfg r),
          ks_HandshakeTimeout = HandshakeTimeoutDuration (sr_cfg r)\<rparr>)"

section \<open>TCP\<close>

text \<open>
  The answers of one connection: \<open>ServerHandshake\<close> is the external handshake (the client id
  it authenticated), \<open>next_request\<close> what \<open>ReadRequest\<close> reads from the secure channel, \<open>tcp_dial\<close>
  the result of \<open>DialContext\<close>, \<open>respond\<close> that of writing a response, \<open>copies\<close> those of the two
  copies.
\<close>

datatype udp_input =
    ReadFailed go_error
  | ReadDatagram RelayTarget bytes "int \<times> go_error option"

datatype net_addr = UDPAddr "string option" int | OtherAddr

datatype udp_output =
    RecvFailed go_error
  | Received net_addr bytes "go_error option"

record conn_env =
  ServerHandshake :: "kless_server_config \<Rightarrow> go_error + string"
  next_request :: "go_error + relay_request"
  remote_addr :: string
  conn_now :: int
  tcp_dial :: "string \<Rightarrow> go_error option"
  respond :: "relay_response \<Rightarrow> go_error option"
  copies :: copy_outcome
  ListenPacket :: "go_error option"
  ResolveUDPAddr :: "string \<Rightarrow> go_error + string"
  udp_inputs :: "udp_input list"
  udp_outputs :: "udp_output list"
  udp_cancelled :: bool
  udp_up_first :: bool

definition record_access ::
  "env \<Rightarrow> conn_env \<Rightarrow> serverRelay \<Rightarrow> string \<Rightarrow> RelayTarget \<Rightarrow> string \<Rightarrow> relay_world \<Rightarrow> relay_world"
where
  "record_access E c r clientID target network w =
     (let userID = UserID (w_store w) clientID;
          (ok, access) =
            Record (accessLogItem E clientID userID target network (remote_addr c) (conn_now c)) (w_access w)
      in if ok then w\<lparr>w_access := access\<rparr>
         else emit [Logged (LogAccess (sr_listenID r) clientID network)] (w\<lparr>w_access := access\<rparr>))"

definition handleTCPConnect ::
  "env \<Rightarrow> relay_lib \<Rightarrow> conn_env \<Rightarrow> serverRelay \<Rightarrow> string \<Rightarrow> RelayTarget \<Rightarrow> relay_world \<Rightarrow> relay_world"
where
  "handleTCPConnect E L c r clientID target w0 =
     (let w = (if w_access w0 \<noteq> None then record_access E c r clientID target ''tcp'' w0 else w0);
          w = emit [Dialed (Address_String L target)] w
      in case tcp_dial c (Address_String L target) of
           Some err \<Rightarrow>
             emit [Responded (connect_response L (Error_text E err)),
                   Logged (LogTarget (sr_listenID r) clientID target err)] (tally addTransportError w)
         | None \<Rightarrow>
             (let w = emit [Opened UpstreamConn, Responded (connect_response L [])] w
              in case respond c (connect_response L []) of
                   Some err \<Rightarrow>
                     emit [Logged (LogResponse (sr_listenID r) clientID err), Closed UpstreamConn]
                       (tally addProxyError w)
                 | None \<Rightarrow>
                     (let (res, m) = pipe_run (copies c) (w_metrics w);
                          w = emit [Closed UpstreamConn, Closed SecureConn] (w\<lparr>w_metrics := m\<rparr>)
                      in case res of
                           None \<Rightarrow> emit [Closed UpstreamConn] w
                         | Some err \<Rightarrow>
                             emit [Logged (LogTargetClosed (sr_listenID r) clientID target err),
                                   Closed UpstreamConn] (tally addProxyError w))))"

section \<open>UDP\<close>

definition resolveUDPAddress :: "relay_lib \<Rightarrow> conn_env \<Rightarrow> RelayTarget \<Rightarrow> go_error + string" where
  "resolveUDPAddress L c address =
     (if trim_space (Host address) = [] \<or> Port address = 0 then Inl (ErrInvalidAddress L)
      else ResolveUDPAddr c (Address_String L address))"

definition relayAddressFromUDPAddr :: "net_addr \<Rightarrow> RelayTarget option" where
  "relayAddressFromUDPAddr addr =
     (case addr of
        OtherAddr \<Rightarrow> None
      | UDPAddr ip port \<Rightarrow>
          (case ip of
             None \<Rightarrow> None
           | Some text \<Rightarrow>
               if port \<le> 0 \<or> 65535 < port then None
               else Some \<lparr>Host = text, Port = word_of_int port\<rparr>))"

text \<open>
  \<open>recordUDPAccess\<close>, with the set of targets this association has seen, each in lower case.
\<close>

definition recordUDPAccess ::
  "env \<Rightarrow> relay_lib \<Rightarrow> conn_env \<Rightarrow> serverRelay \<Rightarrow> string \<Rightarrow> RelayTarget \<Rightarrow>
   string set \<times> relay_world \<Rightarrow> string set \<times> relay_world"
where
  "recordUDPAccess E L c r clientID target sw =
     (let (seen, w) = sw;
          key = ToLower E (Address_String L target)
      in if w_access w = None then (seen, w)
         else if key \<in> seen then (seen, w)
         else (insert key seen, record_access E c r clientID target ''udp'' w))"

text \<open>The bytes of one datagram are counted when there are any.\<close>

definition count_up :: "int \<Rightarrow> relay_world \<Rightarrow> relay_world" where
  "count_up n w = (if n > 0 then tally (addUpBytes (word_of_int n)) w else w)"

definition count_down :: "nat \<Rightarrow> relay_world \<Rightarrow> relay_world" where
  "count_down n w = (if n > 0 then tally (addDownBytes (word_of_nat n)) w else w)"

text \<open>
  The goroutine from the client to the network, run on the datagrams it reads.  Its first
  result is the error it sends into the channel when it ends; \<open>None\<close> means that it has read
  all of the given input and waits for more.
\<close>

fun udp_up_loop ::
  "env \<Rightarrow> relay_lib \<Rightarrow> conn_env \<Rightarrow> serverRelay \<Rightarrow> string \<Rightarrow> udp_input list \<Rightarrow>
   string set \<times> relay_world \<Rightarrow> go_error option option \<times> string set \<times> relay_world"
where
  "udp_up_loop E L c r clientID [] sw = (None, sw)"
| "udp_up_loop E L c r clientID (ReadFailed err # rest) sw =
     (Some (normalizeCopyError (Some err)), sw)"
| "udp_up_loop E L c r clientID (ReadDatagram address payload (n, write_err) # rest) (seen, w) =
     (case resolveUDPAddress L c address of
        Inl err \<Rightarrow> (Some (Some err), seen, w)
      | Inr target \<Rightarrow>
          (let w = count_up n (emit [SentUDP target payload] w)
           in case write_err of
                Some err \<Rightarrow> (Some (normalizeCopyError (Some err)), seen, w)
              | None \<Rightarrow>
                  udp_up_loop E L c r clientID rest
                    (recordUDPAccess E L c r clientID address (seen, w))))"

text \<open>The goroutine from the network to the client.\<close>

fun udp_down_loop :: "udp_output list \<Rightarrow> relay_world \<Rightarrow> go_error option option \<times> relay_world" where
  "udp_down_loop [] w = (None, w)"
| "udp_down_loop (RecvFailed err # rest) w = (Some (normalizeCopyError (Some err)), w)"
| "udp_down_loop (Received addr payload write_err # rest) w =
     (case relayAddressFromUDPAddr addr of
        None \<Rightarrow> udp_down_loop rest w
      | Some target \<Rightarrow>
          (let w = count_down (length payload) (emit [SentDatagram target payload] w)
           in case write_err of
                Some err \<Rightarrow> (Some (normalizeCopyError (Some err)), w)
              | None \<Rightarrow> udp_down_loop rest w))"

text \<open>
  The two goroutines and the final \<open>select\<close>.  They share the counters only, and different
  ones, so running the first and then the second gives the counters of every interleaving.
  A goroutine that still waits ends with the error of the closed socket, which
  \<open>normalizeCopyError\<close> turns into nil.
\<close>

definition ended :: "go_error option option \<Rightarrow> go_error option" where
  "ended res = (case res of None \<Rightarrow> normalizeCopyError (Some NetClosed) | Some err \<Rightarrow> err)"

definition pipeUDPAssociate ::
  "env \<Rightarrow> relay_lib \<Rightarrow> conn_env \<Rightarrow> serverRelay \<Rightarrow> string \<Rightarrow> relay_world \<Rightarrow> go_error option \<times> relay_world"
where
  "pipeUDPAssociate E L c r clientID w0 =
     (let (up_res, seen, w) = udp_up_loop E L c r clientID (udp_inputs c) ({}, w0);
          (down_res, w) = udp_down_loop (udp_outputs c) w;
          w = emit [Closed UDPSocket, Closed SecureConn] w
      in if udp_cancelled c then (None, w)
         else (let (err, second) = (if udp_up_first c then (ended up_res, ended down_res)
                                    else (ended down_res, ended up_res))
               in (if err \<noteq> None then err else second, w)))"

definition handleUDPAssociate ::
  "env \<Rightarrow> relay_lib \<Rightarrow> conn_env \<Rightarrow> serverRelay \<Rightarrow> string \<Rightarrow> relay_world \<Rightarrow> relay_world"
where
  "handleUDPAssociate E L c r clientID w =
     (case ListenPacket c of
        Some err \<Rightarrow>
          emit [Responded \<lparr>rs_Status = StatusDialFailed L, rs_Message = Error_text E err\<rparr>,
                Logged (LogResponse (sr_listenID r) clientID err)] (tally addTransportError w)
      | None \<Rightarrow>
          (let ok = \<lparr>rs_Status = StatusOK L, rs_Message = []\<rparr>;
               w = emit [Opened UDPSocket, Responded ok] w
           in case respond c ok of
                Some err \<Rightarrow>
                  emit [Logged (LogResponse (sr_listenID r) clientID err), Closed UDPSocket]
                    (tally addProxyError w)
              | None \<Rightarrow>
                  (let (res, w) = pipeUDPAssociate E L c r clientID w
                   in case res of
                        None \<Rightarrow> emit [Closed UDPSocket] w
                      | Some err \<Rightarrow>
                          emit [Logged (LogClosed (sr_listenID r) clientID err), Closed UDPSocket]
                            (tally addProxyError w))))"

section \<open>Handle\<close>

definition Handle :: "env \<Rightarrow> relay_lib \<Rightarrow> conn_env \<Rightarrow> serverRelay \<Rightarrow> relay_world \<Rightarrow> relay_world" where
  "Handle E L c r w =
     (case ServerHandshake c (serverConfig E r (w_store w)) of
        Inl err \<Rightarrow> emit [Logged (LogHandshake (sr_listenID r) err)] (tally addHandshakeError w)
      | Inr clientID \<Rightarrow>
          (let w = emit [Opened SecureConn] w;
               w = (case next_request c of
                      Inl err \<Rightarrow>
                        emit [Logged (LogRequest (sr_listenID r) clientID err)] (tally addProxyError w)
                    | Inr req \<Rightarrow>
                        if rq_Command req = CommandTCPConnect L
                        then handleTCPConnect E L c r clientID (rq_Address req) w
                        else if rq_Command req = CommandUDPAssociate L
                        then handleUDPAssociate E L c r clientID w
                        else emit [Responded \<lparr>rs_Status = StatusUnsupportedCommand L,
                                              rs_Message = ''unsupported relay command''\<rparr>,
                                   Logged (LogUnsupported (sr_listenID r) clientID (rq_Command req))]
                               (tally addProxyError w))
           in emit [Closed SecureConn] w))"

end
