(* ===== verification/Server_Relay_Facts.thy ===== *)
theory Server_Relay_Facts
  imports Server_Relay
begin

text \<open>
  What a relay does with a connection: the resources it opens and closes, the response it
  sends, the counters it moves and the records it makes.
\<close>

section \<open>Shared simplification\<close>

lemma emit_simps [simp]:
  "w_store (emit evs w) = w_store w" "w_access (emit evs w) = w_access w"
  "w_metrics (emit evs w) = w_metrics w" "w_trace (emit evs w) = w_trace w @ evs"
  by (simp_all add: emit_def)

lemma tally_simps [simp]:
  "w_store (tally f w) = w_store w" "w_access (tally f w) = w_access w"
  "w_metrics (tally f w) = f (w_metrics w)" "w_trace (tally f w) = w_trace w"
  by (simp_all add: tally_def)

lemma count_up_simps [simp]:
  "w_store (count_up n w) = w_store w" "w_access (count_up n w) = w_access w"
  "w_trace (count_up n w) = w_trace w"
  "w_store (count_down k w) = w_store w" "w_access (count_down k w) = w_access w"
  "w_trace (count_down k w) = w_trace w"
  by (simp_all add: count_up_def count_down_def)

lemma record_access_simps [simp]:
  "w_store (record_access E c r i t n w) = w_store w"
  "w_metrics (record_access E c r i t n w) = w_metrics w"
  by (simp_all add: record_access_def Let_def split: prod.splits)

lemma record_access_trace:
  "w_trace (record_access E c r i t n w) = w_trace w \<or>
   w_trace (record_access E c r i t n w) = w_trace w @ [Logged (LogAccess (sr_listenID r) i n)]"
  by (auto simp: record_access_def Let_def split: prod.splits)

section \<open>Construction\<close>

lemma client_credentials_ok:
  assumes "\<forall>c \<in> set clients. is_ok (cc_ClientSecretBytes c)"
  shows "\<exists>creds. client_credentials clients = Inr creds \<and>
    map cred_ClientID creds = map cc_ClientID clients \<and>
    (\<forall>cr \<in> set creds. cred_UserID cr = 0 \<and>
       (\<exists>c \<in> set clients. cred_ClientID cr = cc_ClientID c \<and> cc_ClientSecretBytes c = Inr (cred_Secret cr)))"
  using assms
proof (induction clients)
  case (Cons c clients)
  then obtain secret creds where "cc_ClientSecretBytes c = Inr secret" "client_credentials clients = Inr creds"
    "map cred_ClientID creds = map cc_ClientID clients"
    "\<forall>cr \<in> set creds. cred_UserID cr = 0 \<and>
       (\<exists>c \<in> set clients. cred_ClientID cr = cc_ClientID c \<and> cc_ClientSecretBytes c = Inr (cred_Secret cr))"
    by (auto simp: is_ok_iff)
  then show ?case by auto
qed simp

lemma good_secret_ok: "good_secret (cc_ClientSecret c) \<Longrightarrow> is_ok (cc_ClientSecretBytes c)"
  by (simp add: good_secret_def cc_ClientSecretBytes_def split: sum.splits)

lemma staticClientCredentials_ok:
  assumes "valid_ServerKLESSConfig E allow k"
  shows "is_ok (staticClientCredentials k)"
proof -
  have "\<forall>c \<in> set (s_Clients k). is_ok (cc_ClientSecretBytes c)"
    using assms good_secret_ok by (auto simp: valid_ServerKLESSConfig_def valid_client_def)
  from client_credentials_ok [OF this] obtain creds where "client_credentials (s_Clients k) = Inr creds"
    by blast
  moreover have "s_ClientSecret k \<noteq> [] \<Longrightarrow> is_ok (s_ClientSecretBytes k)"
    using assms by (auto simp: valid_ServerKLESSConfig_def good_secret_def s_ClientSecretBytes_def split: sum.splits)
  ultimately show ?thesis
    by (auto simp: staticClientCredentials_def is_ok_iff)
qed

text \<open>A validated server configuration always gives a relay.\<close>

lemma newServerRelay_ok:
  assumes "valid_ServerKLESSConfig E allow k"
  shows "is_ok (newServerRelay listenID k store)"
proof -
  obtain key where "s_ServerSigningPrivateBytes k = Inr key"
    using assms by (auto simp: valid_ServerKLESSConfig_def good_private_iff s_ServerSigningPrivateBytes_iff)
  moreover obtain creds where "staticClientCredentials k = Inr creds"
    using staticClientCredentials_ok [OF assms] by (auto simp: is_ok_iff)
  ultimately show ?thesis by (simp add: newServerRelay_def Let_def)
qed

lemma newServerRelay_cases:
  "newServerRelay listenID k (Some s) = Inr (relay, s') \<Longrightarrow>
     sr_cfg relay = k \<and> sr_listenID relay = listenID \<and> length (sr_signing relay) = 64 \<and>
     (\<exists>creds. staticClientCredentials k = Inr creds \<and> s' = AddStatic creds s)"
  by (auto simp: newServerRelay_def Let_def s_ServerSigningPrivateBytes_iff split: sum.splits)

section \<open>Resources\<close>

fun resource_step :: "relay_event \<Rightarrow> relay_resource set \<Rightarrow> relay_resource set" where
  "resource_step (Opened x) open_now = insert x open_now"
| "resource_step (Closed x) open_now = open_now - {x}"
| "resource_step _ open_now = open_now"

definition still_open :: "relay_world \<Rightarrow> relay_resource set" where
  "still_open w = fold resource_step (w_trace w) {}"

lemma still_open_emit [simp]: "still_open (emit evs w) = fold resource_step evs (still_open w)"
  by (simp add: still_open_def)

lemma still_open_trace: "w_trace w' = w_trace w \<Longrightarrow> still_open w' = still_open w"
  by (simp add: still_open_def)

lemma still_open_simps [simp]:
  "still_open (tally f w) = still_open w"
  "still_open (count_up n w) = still_open w" "still_open (count_down k w) = still_open w"
  "still_open (w\<lparr>w_metrics := m\<rparr>) = still_open w"
  "still_open (w\<lparr>w_access := a\<rparr>) = still_open w"
  by (simp_all add: still_open_def)

lemma still_open_record [simp]: "still_open (record_access E c r i t n w) = still_open w"
  using record_access_trace [of E c r i t n w] by (auto simp: still_open_def)

lemma recordUDPAccess_still_open [simp]:
  "still_open (snd (recordUDPAccess E L c r i t (seen, w))) = still_open w"
  by (simp add: recordUDPAccess_def Let_def)

lemma udp_up_loop_still_open:
  "still_open (snd (snd (udp_up_loop E L c r i inputs sw))) = still_open (snd sw)"
  by (induction E L c r i inputs sw rule: udp_up_loop.induct)
    (auto simp: Let_def split: sum.splits option.splits)

lemma udp_down_loop_still_open: "still_open (snd (udp_down_loop outputs w)) = still_open w"
  by (induction outputs w rule: udp_down_loop.induct) (auto simp: Let_def split: option.splits)

lemma pipeUDPAssociate_still_open:
  "still_open (snd (pipeUDPAssociate E L c r i w)) = still_open w - {UDPSocket, SecureConn}"
proof -
  obtain u seen w1 where u: "udp_up_loop E L c r i (udp_inputs c) ({}, w) = (u, seen, w1)"
    by (cases "udp_up_loop E L c r i (udp_inputs c) ({}, w)") auto
  obtain d w2 where d: "udp_down_loop (udp_outputs c) w1 = (d, w2)"
    by (cases "udp_down_loop (udp_outputs c) w1") auto
  have "still_open w2 = still_open w"
    using udp_up_loop_still_open [of E L c r i "udp_inputs c" "({}, w)"]
      udp_down_loop_still_open [of "udp_outputs c" w1] by (simp add: u d)
  then show ?thesis by (simp add: pipeUDPAssociate_def u d Let_def split_def) blast
qed

lemma handleTCPConnect_still_open:
  "still_open (handleTCPConnect E L c r i target w) - {SecureConn} = still_open w - {SecureConn, UpstreamConn} \<or>
   still_open (handleTCPConnect E L c r i target w) = still_open w"
  by (auto simp: handleTCPConnect_def Let_def split: option.splits prod.splits)

lemma pipeUDPAssociate_still_open_eq:
  "pipeUDPAssociate E L c r i w = (res, w') \<Longrightarrow> still_open w' = still_open w - {UDPSocket, SecureConn}"
  using pipeUDPAssociate_still_open [of E L c r i w] by simp

lemma handleUDPAssociate_still_open:
  "UDPSocket \<notin> still_open w \<Longrightarrow>
   still_open (handleUDPAssociate E L c r i w) - {SecureConn} = still_open w - {SecureConn}"
proof -
  assume closed: "UDPSocket \<notin> still_open w"
  define w1 where "w1 = emit [Opened UDPSocket, Responded \<lparr>rs_Status = StatusOK L, rs_Message = []\<rparr>] w"
  obtain res w2 where pipe: "pipeUDPAssociate E L c r i w1 = (res, w2)"
    by (cases "pipeUDPAssociate E L c r i w1") auto
  have w2: "still_open w2 = still_open w - {SecureConn}"
    using pipeUDPAssociate_still_open_eq [OF pipe] closed by (auto simp: w1_def)
  show ?thesis
    unfolding handleUDPAssociate_def Let_def w1_def [symmetric] pipe
    using closed w2 by (cases res) (auto simp: w1_def split: option.splits)
qed

lemma Handle_still_open:
  assumes "still_open w = {}" shows "still_open (Handle E L c r w) = {}"
proof (cases "ServerHandshake c (serverConfig E r (w_store w))")
  case (Inl err)
  with assms show ?thesis by (simp add: Handle_def)
next
  case (Inr clientID)
  define w1 where "w1 = emit [Opened SecureConn] w"
  have w1: "still_open w1 = {SecureConn}" by (simp add: w1_def assms)
  have "still_open (handleTCPConnect E L c r clientID t w1) - {SecureConn} = {}" for t
    using handleTCPConnect_still_open [of E L c r clientID t w1] w1 by auto
  moreover have "still_open (handleUDPAssociate E L c r clientID w1) - {SecureConn} = {}"
    using handleUDPAssociate_still_open [of w1 E L c r clientID] w1 by simp
  ultimately show ?thesis
    using Inr w1 by (auto simp: Handle_def w1_def [symmetric] Let_def split: sum.splits)
qed

section \<open>Responses\<close>

fun response_of :: "relay_event \<Rightarrow> relay_response list" where
  "response_of (Responded resp) = [resp]"
| "response_of _ = []"

definition responses :: "relay_world \<Rightarrow> relay_response list" where
  "responses w = concat (map response_of (w_trace w))"

lemma responses_emit [simp]: "responses (emit evs w) = responses w @ concat (map response_of evs)"
  by (simp add: responses_def)

lemma responses_simps [simp]:
  "responses (tally f w) = responses w"
  "responses (count_up n w) = responses w" "responses (count_down k w) = responses w"
  "responses (w\<lparr>w_metrics := m\<rparr>) = responses w"
  "responses (w\<lparr>w_access := a\<rparr>) = responses w"
  by (simp_all add: responses_def)

lemma responses_record [simp]: "responses (record_access E c r i t n w) = responses w"
  using record_access_trace [of E c r i t n w] by (auto simp: responses_def)

lemma responses_recordUDPAccess [simp]:
  "responses (snd (recordUDPAccess E L c r i t (seen, w))) = responses w"
  by (simp add: recordUDPAccess_def Let_def)

lemma responses_udp_up_loop:
  "responses (snd (snd (udp_up_loop E L c r i inputs sw))) = responses (snd sw)"
  by (induction E L c r i inputs sw rule: udp_up_loop.induct)
    (auto simp: Let_def split: sum.splits option.splits)

lemma responses_udp_down_loop: "responses (snd (udp_down_loop outputs w)) = responses w"
  by (induction outputs w rule: udp_down_loop.induct) (auto simp: Let_def split: option.splits)

lemma responses_pipeUDPAssociate: "responses (snd (pipeUDPAssociate E L c r i w)) = responses w"
proof -
  obtain u seen w1 where u: "udp_up_loop E L c r i (udp_inputs c) ({}, w) = (u, seen, w1)"
    by (cases "udp_up_loop E L c r i (udp_inputs c) ({}, w)") auto
  obtain d w2 where d: "udp_down_loop (udp_outputs c) w1 = (d, w2)"
    by (cases "udp_down_loop (udp_outputs c) w1") auto
  have "responses w2 = responses w"
    using responses_udp_up_loop [of E L c r i "udp_inputs c" "({}, w)"]
      responses_udp_down_loop [of "udp_outputs c" w1] by (simp add: u d)
  then show ?thesis by (auto simp: pipeUDPAssociate_def u d Let_def)
qed

lemma responses_pipeUDPAssociate_eq:
  "pipeUDPAssociate E L c r i w = (res, w') \<Longrightarrow> responses w' = responses w"
  using responses_pipeUDPAssociate [of E L c r i w] by simp

lemma handleTCPConnect_responses:
  "responses (handleTCPConnect E L c r i target w) =
     responses w @ [connect_response L
       (case tcp_dial c (Address_String L target) of None \<Rightarrow> [] | Some err \<Rightarrow> Error_text E err)]"
  by (auto simp: handleTCPConnect_def Let_def split: option.splits prod.splits)

lemma handleUDPAssociate_responses:
  "responses (handleUDPAssociate E L c r i w) =
     responses w @ [case ListenPacket c of
        None \<Rightarrow> \<lparr>rs_Status = StatusOK L, rs_Message = []\<rparr>
      | Some err \<Rightarrow> \<lparr>rs_Status = StatusDialFailed L, rs_Message = Error_text E err\<rparr>]"
  by (auto simp: handleUDPAssociate_def Let_def split: option.splits prod.splits
      dest!: responses_pipeUDPAssociate_eq)

text \<open>The response to a request, as a function of the answers of the outside.\<close>

definition expected_response :: "env \<Rightarrow> relay_lib \<Rightarrow> conn_env \<Rightarrow> relay_request \<Rightarrow> relay_response" where
  "expected_response E L c req =
     (if rq_Command req = CommandTCPConnect L then
        connect_response L
          (case tcp_dial c (Address_String L (rq_Address req)) of None \<Rightarrow> [] | Some err \<Rightarrow> Error_text E err)
      else if rq_Command req = CommandUDPAssociate L then
        (case ListenPacket c of
           None \<Rightarrow> \<lparr>rs_Status = StatusOK L, rs_Message = []\<rparr>
         | Some err \<Rightarrow> \<lparr>rs_Status = StatusDialFailed L, rs_Message = Error_text E err\<rparr>)
      else \<lparr>rs_Status = StatusUnsupportedCommand L, rs_Message = ''unsupported relay command''\<rparr>)"

lemma Handle_responses:
  "responses (Handle E L c r w) = responses w @
     (case ServerHandshake c (serverConfig E r (w_store w)) of
        Inl _ \<Rightarrow> []
      | Inr _ \<Rightarrow> (case next_request c of Inl _ \<Rightarrow> [] | Inr req \<Rightarrow> [expected_response E L c req]))"
  by (auto simp: Handle_def Let_def handleTCPConnect_responses handleUDPAssociate_responses
      expected_response_def split: sum.splits)

section \<open>Counters\<close>

text \<open>
  \<open>moves k m m'\<close>: from \<open>m\<close> to \<open>m'\<close> by updates that leave the connection counters alone and
  count at most \<open>k\<close> errors.
\<close>

fun is_error :: "metric_update \<Rightarrow> bool" where
  "is_error TransportError = True"
| "is_error HandshakeError = True"
| "is_error ProxyError = True"
| "is_error _ = False"

definition moves :: "nat \<Rightarrow> Metrics \<Rightarrow> Metrics \<Rightarrow> bool" where
  "moves k m m' \<longleftrightarrow>
     (\<exists>us. m' = apply_updates us m \<and> {Begin, End, Rejected} \<inter> set us = {} \<and>
           length (filter is_error us) \<le> k)"

lemma moves_refl [simp]: "moves k m m"
  unfolding moves_def by (rule exI [of _ "[]"]) (simp add: apply_updates_def)

lemma moves_trans:
  assumes "moves k m m'" and "moves k' m' m''" shows "moves (k + k') m m''"
proof -
  from assms obtain us vs where
    "m' = apply_updates us m" "{Begin, End, Rejected} \<inter> set us = {}" "length (filter is_error us) \<le> k"
    "m'' = apply_updates vs m'" "{Begin, End, Rejected} \<inter> set vs = {}" "length (filter is_error vs) \<le> k'"
    unfolding moves_def by blast
  then show ?thesis
    unfolding moves_def by (intro exI [of _ "us @ vs"]) (auto simp: apply_updates_append)
qed

lemma moves_trans0: "moves 0 m m' \<Longrightarrow> moves k m' m'' \<Longrightarrow> moves k m m''"
  using moves_trans [of 0 m m' k m''] by simp

lemma moves_one:
  "u \<notin> {Begin, End, Rejected} \<Longrightarrow> moves (if is_error u then 1 else 0) m (apply_update u m)"
  unfolding moves_def by (rule exI [of _ "[u]"]) (auto simp: apply_updates_def)

lemma moves_ops [simp]:
  "moves (Suc 0) m (addTransportError m)" "moves (Suc 0) m (addHandshakeError m)"
  "moves (Suc 0) m (addProxyError m)" "moves 0 m (addUpBytes n m)" "moves 0 m (addDownBytes n m)"
  using moves_one [of TransportError m] moves_one [of HandshakeError m] moves_one [of ProxyError m]
    moves_one [of "UpBytes n" m] moves_one [of "DownBytes n" m] by simp_all

lemma moves_weaken: "moves 0 m m' \<Longrightarrow> moves k m m'"
  by (auto simp: moves_def)

lemma moves_then_error: "moves 0 m m' \<Longrightarrow> moves (Suc 0) m (addProxyError m')"
  by (rule moves_trans0 [OF _ moves_ops(3)])

lemma moves_after:
  "moves k (addUpBytes n m) m' \<Longrightarrow> moves k m m'"
  "moves k (addDownBytes n m) m' \<Longrightarrow> moves k m m'"
  by (rule moves_trans0 [OF moves_ops(4)], assumption) (rule moves_trans0 [OF moves_ops(5)])

lemma moves_pipe_run: "pipe_run out m = (res, m') \<Longrightarrow> moves 0 m m'"
  by (auto simp: pipe_run_def Let_def split: prod.splits intro: moves_trans0 [OF moves_ops(4) moves_ops(5)])

lemma moves_count_up [simp]:
  "moves 0 (w_metrics w) (w_metrics (count_up n w))" "moves 0 (w_metrics w) (w_metrics (count_down k w))"
  by (simp_all add: count_up_def count_down_def)

lemma recordUDPAccess_metrics [simp]:
  "w_metrics (snd (recordUDPAccess E L c r i t (seen, w))) = w_metrics w"
  by (simp add: recordUDPAccess_def Let_def)

lemma moves_udp_up_loop:
  "moves 0 (w_metrics (snd sw)) (w_metrics (snd (snd (udp_up_loop E L c r i inputs sw))))"
proof (induction E L c r i inputs sw rule: udp_up_loop.induct)
  case (3 E L c r i address payload n write_err rest seen w)
  have up: "moves 0 (w_metrics w) (w_metrics (count_up n (emit [SentUDP target payload] w)))" for target
    using moves_count_up(1) [of "emit [SentUDP target payload] w"] by simp
  with 3 show ?case
    by (cases "resolveUDPAddress L c address"; cases write_err)
      (auto simp: Let_def up intro!: moves_trans0 [OF up])
qed simp_all

lemma moves_udp_down_loop: "moves 0 (w_metrics w) (w_metrics (snd (udp_down_loop outputs w)))"
proof (induction outputs w rule: udp_down_loop.induct)
  case (3 addr payload write_err rest w)
  have down: "moves 0 (w_metrics w) (w_metrics (count_down k (emit [SentDatagram target payload] w)))" for k target
    using moves_count_up(2) [of "emit [SentDatagram target payload] w"] by simp
  with 3 show ?case
    by (cases "relayAddressFromUDPAddr addr"; cases write_err)
      (auto simp: Let_def down intro!: moves_trans0 [OF down])
qed simp_all

lemma moves_pipeUDPAssociate:
  "pipeUDPAssociate E L c r i w = (res, w') \<Longrightarrow> moves 0 (w_metrics w) (w_metrics w')"
proof -
  assume pipe: "pipeUDPAssociate E L c r i w = (res, w')"
  obtain u seen w1 where u: "udp_up_loop E L c r i (udp_inputs c) ({}, w) = (u, seen, w1)"
    by (cases "udp_up_loop E L c r i (udp_inputs c) ({}, w)") auto
  obtain d w2 where d: "udp_down_loop (udp_outputs c) w1 = (d, w2)"
    by (cases "udp_down_loop (udp_outputs c) w1") auto
  have "moves 0 (w_metrics w) (w_metrics w2)"
    using moves_trans0 [OF moves_udp_up_loop [of "({}, w)" E L c r i "udp_inputs c"]]
      moves_udp_down_loop [of w1 "udp_outputs c"] by (simp add: u d)
  moreover have "w_metrics w' = w_metrics w2"
    using pipe by (auto simp: pipeUDPAssociate_def u d Let_def split_def split: if_splits)
  ultimately show ?thesis by simp
qed

lemma moves_handleTCPConnect:
  "moves (Suc 0) (w_metrics w) (w_metrics (handleTCPConnect E L c r i target w))"
  by (auto simp: handleTCPConnect_def Let_def split: option.splits prod.splits
      dest!: moves_pipe_run intro: moves_weaken moves_then_error)

lemma moves_handleUDPAssociate:
  "moves (Suc 0) (w_metrics w) (w_metrics (handleUDPAssociate E L c r i w))"
proof -
  define w1 where "w1 = emit [Opened UDPSocket, Responded \<lparr>rs_Status = StatusOK L, rs_Message = []\<rparr>] w"
  obtain res w2 where pipe: "pipeUDPAssociate E L c r i w1 = (res, w2)"
    by (cases "pipeUDPAssociate E L c r i w1") auto
  have w2: "moves 0 (w_metrics w) (w_metrics w2)"
    using moves_pipeUDPAssociate [OF pipe] by (simp add: w1_def)
  show ?thesis
    unfolding handleUDPAssociate_def Let_def w1_def [symmetric] pipe
    using w2 by (cases res) (auto simp: w1_def split: option.splits intro: moves_weaken moves_then_error)
qed

lemma moves_Handle: "moves (Suc 0) (w_metrics w) (w_metrics (Handle E L c r w))"
  using moves_handleTCPConnect [of "emit [Opened SecureConn] w" E L c r]
    moves_handleUDPAssociate [of "emit [Opened SecureConn] w" E L c r]
  by (auto simp: Handle_def Let_def split: sum.splits)

section \<open>Access records\<close>

text \<open>Records of an association: at most one per target, by its lower-case text.\<close>

lemma Record_length:
  "Record item p = (ok, p') \<Longrightarrow> length (buffered p') \<le> length (buffered p) + (if ok then 1 else 0)"
  by (auto simp: Record_def buffered_def split: option.splits if_splits)

lemma record_access_length:
  "length (buffered (w_access (record_access E c r i t n w))) \<le> Suc (length (buffered (w_access w)))"
  by (auto simp: record_access_def Let_def split: prod.splits if_splits dest!: Record_length)

definition log_size :: "relay_world \<Rightarrow> nat" where
  "log_size w = length (buffered (w_access w))"

lemma log_size_simps [simp]:
  "log_size (emit evs w) = log_size w" "log_size (count_up n w) = log_size w"
  by (simp_all add: log_size_def)

lemma recordUDPAccess_size:
  assumes "finite seen" and "recordUDPAccess E L c r i t (seen, w) = (seen', w')"
  shows "finite seen' \<and> seen \<subseteq> seen' \<and> seen' \<subseteq> insert (ToLower E (Address_String L t)) seen \<and>
    log_size w' + card seen \<le> log_size w + card seen'"
  using assms record_access_length [of E c r i t "''udp''" w]
  by (auto simp: recordUDPAccess_def Let_def log_size_def split: if_splits)

fun udp_keys :: "env \<Rightarrow> relay_lib \<Rightarrow> udp_input list \<Rightarrow> string set" where
  "udp_keys E L [] = {}"
| "udp_keys E L (ReadFailed e # inputs) = udp_keys E L inputs"
| "udp_keys E L (ReadDatagram a p res # inputs) = insert (ToLower E (Address_String L a)) (udp_keys E L inputs)"

lemma finite_udp_keys [simp]: "finite (udp_keys E L inputs)"
  by (induction E L inputs rule: udp_keys.induct) auto

lemma udp_up_loop_size:
  "udp_up_loop E L c r i inputs sw = (res, seen', w') \<Longrightarrow> finite (fst sw) \<Longrightarrow>
     finite seen' \<and> seen' \<subseteq> fst sw \<union> udp_keys E L inputs \<and>
     log_size w' + card (fst sw) \<le> log_size (snd sw) + card seen'"
proof (induction E L c r i inputs sw rule: udp_up_loop.induct)
  case (3 E L c r i address payload n write_err rest seen w)
  show ?case
  proof (cases "resolveUDPAddress L c address")
    case (Inl e)
    with "3.prems" show ?thesis by auto
  next
    case (Inr target)
    define w1 where "w1 = count_up n (emit [SentUDP target payload] w)"
    have size1: "log_size w1 = log_size w" by (simp add: w1_def)
    obtain seen2 w2 where rec: "recordUDPAccess E L c r i address (seen, w1) = (seen2, w2)"
      by (cases "recordUDPAccess E L c r i address (seen, w1)") auto
    show ?thesis
    proof (cases write_err)
      case None
      from "3.prems" Inr None have "udp_up_loop E L c r i rest (seen2, w2) = (res, seen', w')"
        by (simp add: Let_def w1_def [symmetric] rec)
      moreover from recordUDPAccess_size [OF _ rec] "3.prems"(2)
      have "finite seen2" "seen2 \<subseteq> insert (ToLower E (Address_String L address)) seen"
        "log_size w2 + card seen \<le> log_size w + card seen2" using size1 by auto
      ultimately show ?thesis
        using "3.IH" [OF Inr refl None] by (fastforce simp: w1_def [symmetric] rec)
    next
      case (Some e)
      with "3.prems" Inr size1 show ?thesis by (auto simp: Let_def w1_def)
    qed
  qed
qed auto

lemma udp_records_bound:
  assumes "udp_up_loop E L c r i inputs ({}, w) = (res, seen', w')"
  shows "log_size w' \<le> log_size w + card (udp_keys E L inputs)"
proof -
  from udp_up_loop_size [OF assms] have "seen' \<subseteq> udp_keys E L inputs" "log_size w' \<le> log_size w + card seen'"
    by auto
  moreover have "card seen' \<le> card (udp_keys E L inputs)"
    by (rule card_mono) (use calculation in auto)
  ultimately show ?thesis by linarith
qed

end
