(* ===== verification/Dialer.thy ===== *)
theory Dialer
  imports Config_Idempotent Go_Errors Net_Address
begin

text \<open>
  \<open>internal/node/dialer.go\<close> and \<open>internal/node/check.go\<close>: the client side, which dials an
  upstream over one of the transports and makes the KLESS handshake.  The transports and the
  handshake are packages of the external module \<open>kray\<close>; the record \<open>net_lib\<close> holds them, with
  the parts of \<open>net/http\<close>, \<open>crypto/x509\<close> and the file system the dialer uses.  A connection is
  an identifier \<open>nat\<close>.
\<close>

section \<open>The outside\<close>

record tls_config =
  tls_MinVersion13 :: bool
  tls_ServerName :: string
  tls_InsecureSkipVerify :: bool
  tls_RootCAs :: "string option"

record client_config =
  kc_ClientID :: string
  kc_ClientSecret :: bytes
  kc_ServerSigningKey :: bytes
  kc_Capabilities :: nat
  kc_MaxFramePayload :: int
  kc_PaddingMin :: int
  kc_PaddingMax :: int
  kc_HandshakeTimeout :: int

text \<open>\<open>http.Header\<close>; the dialer stores one value per key.\<close>

type_synonym header = "string \<Rightarrow> string option"

record net_lib =
  tcp_Dial :: "int \<Rightarrow> string \<Rightarrow> go_error + nat"
  tls_Dial :: "int \<Rightarrow> string \<Rightarrow> tls_config option \<Rightarrow> go_error + nat"
  httpupgrade_Dial :: "int \<Rightarrow> string \<Rightarrow> header \<Rightarrow> tls_config option \<Rightarrow> go_error + nat"
  websocket_Dial :: "int \<Rightarrow> string \<Rightarrow> header \<Rightarrow> tls_config option \<Rightarrow> go_error + nat"
  httpstream_Dial :: "tls_config option \<Rightarrow> string \<Rightarrow> header \<Rightarrow> go_error + nat"
  grpc_Dial :: "tls_config option \<Rightarrow> string \<Rightarrow> header \<Rightarrow> go_error + nat"
  xhttp_Dial :: "tls_config option \<Rightarrow> string \<Rightarrow> header \<Rightarrow> go_error + nat"
  kless_ErrUnsupported :: go_error
  ClientHandshake :: "nat \<Rightarrow> client_config \<Rightarrow> go_error option"
  ReadFile :: "string \<Rightarrow> go_error + string"
  AppendCertsFromPEM :: "string \<Rightarrow> bool"

section \<open>Construction\<close>

record UpstreamDialer =
  d_cfg :: UpstreamConfig

definition NewUpstreamDialer :: "env \<Rightarrow> UpstreamConfig \<Rightarrow> go_error + UpstreamDialer" where
  "NewUpstreamDialer E cfg =
     (case UpstreamConfig_Validate E cfg of
        Inl e \<Rightarrow> Inl e
      | Inr cfg' \<Rightarrow> Inr \<lparr>d_cfg = cfg'\<rparr>)"

definition StageTransport :: string where "StageTransport = ''transport''"
definition StageHandshake :: string where "StageHandshake = ''handshake''"

record DialError =
  Stage :: string
  StageErr :: go_error

text \<open>\<open>Error\<close> and \<open>Unwrap\<close> of a \<open>DialError\<close> are those of the wrapping \<open>Wrap stage err\<close>.\<close>

definition dial_error :: "DialError \<Rightarrow> go_error" where
  "dial_error e = Wrap (Stage e) (StageErr e)"

section \<open>The handshake configuration\<close>

definition ClientConfig :: "env \<Rightarrow> string \<Rightarrow> KLESSConfig \<Rightarrow> go_error + client_config" where
  "ClientConfig E transport k =
     (case k_ClientSecretBytes k of
        Inl e \<Rightarrow> Inl e
      | Inr secret \<Rightarrow>
     (case k_ServerSigningKeyBytes k of
        Inl e \<Rightarrow> Inl e
      | Inr signingKey \<Rightarrow>
     (case capabilityMask E transport (k_Capabilities k) of
        Inl e \<Rightarrow> Inl e
      | Inr caps \<Rightarrow>
     (case parseDuration (k_HandshakeTimeout k) DefaultHandshakeTimeout of
        Inl e \<Rightarrow> Inl e
      | Inr handshakeTimeout \<Rightarrow>
          Inr \<lparr>kc_ClientID = k_ClientID k, kc_ClientSecret = secret,
               kc_ServerSigningKey = signingKey, kc_Capabilities = caps,
               kc_MaxFramePayload =
                 defaultInt (k_MaxFramePayload k) (DefaultMaxFramePayload (kless E)),
               kc_PaddingMin = k_PaddingMin k, kc_PaddingMax = k_PaddingMax k,
               kc_HandshakeTimeout = handshakeTimeout\<rparr>))))"

section \<open>TLS and headers\<close>

definition trimBrackets :: "string \<Rightarrow> string" where
  "trimBrackets host = trim_suffix '']'' (trim_prefix ''['' (trim_space host))"

definition serverName :: "env \<Rightarrow> UpstreamDialer \<Rightarrow> string" where
  "serverName E d =
     (if u_ServerName (d_cfg d) \<noteq> [] then u_ServerName (d_cfg d)
      else if u_Address (d_cfg d) \<noteq> [] then
        (case SplitHostPort (u_Address (d_cfg d)) of
           Inr (host, _) \<Rightarrow> trimBrackets host
         | Inl _ \<Rightarrow> trimBrackets (u_Address (d_cfg d)))
      else if u_URL (d_cfg d) \<noteq> [] then
        trimBrackets
          (case request_hostname E (u_URL (d_cfg d)) of
             Inr host \<Rightarrow> if host \<noteq> [] then host else u_URL (d_cfg d)
           | Inl _ \<Rightarrow> u_URL (d_cfg d))
      else [])"

definition tlsConfig :: "env \<Rightarrow> net_lib \<Rightarrow> UpstreamDialer \<Rightarrow> go_error + tls_config option" where
  "tlsConfig E N d =
     (if u_Transport (d_cfg d) = TransportTCP then Inr None
      else
        (let cfg = \<lparr>tls_MinVersion13 = True, tls_ServerName = serverName E d,
                    tls_InsecureSkipVerify = u_InsecureSkipVerify (d_cfg d), tls_RootCAs = None\<rparr>
         in if u_CAFile (d_cfg d) \<noteq> [] then
              (case ReadFile N (u_CAFile (d_cfg d)) of
                 Inl err \<Rightarrow> Inl err
               | Inr cert \<Rightarrow>
                   if \<not> AppendCertsFromPEM N cert
                   then Inl (Err ''ca_file does not contain a valid PEM certificate'')
                   else Inr (Some (cfg\<lparr>tls_RootCAs := Some cert\<rparr>)))
            else Inr (Some cfg)))"

text \<open>
  \<open>headers.Set\<close> for every pair, in the order in which the map is iterated: the argument lists
  the pairs in that order, which Go leaves open.
\<close>

definition headerFromMap :: "(string \<times> string) list \<Rightarrow> header" where
  "headerFromMap values =
     foldl (\<lambda>headers (key, value). headers(CanonicalHeaderKey key \<mapsto> value)) Map.empty values"

text \<open>\<open>httpClient\<close> gives the default client (\<open>None\<close>) without a TLS configuration.\<close>

definition httpClient :: "tls_config option \<Rightarrow> tls_config option" where
  "httpClient tlsCfg = (case tlsCfg of None \<Rightarrow> None | Some cfg \<Rightarrow> Some cfg)"

section \<open>Dialling\<close>

definition dialRaw :: "env \<Rightarrow> net_lib \<Rightarrow> UpstreamDialer \<Rightarrow> go_error + nat" where
  "dialRaw E N d =
     (case tlsConfig E N d of
        Inl err \<Rightarrow> Inl err
      | Inr tls \<Rightarrow>
          (let cfg = d_cfg d;
               headers = headerFromMap (u_Headers cfg);
               timeout = DialTimeoutDuration cfg;
               transport = u_Transport cfg
           in if transport = TransportTCP then tcp_Dial N timeout (u_Address cfg)
              else if transport = TransportTLS then tls_Dial N timeout (u_Address cfg) tls
              else if transport = TransportHTTPUpgrade \<or> transport = TransportHTTPUpdate then
                httpupgrade_Dial N timeout (u_URL cfg) headers tls
              else if transport = TransportWebSocket then
                websocket_Dial N timeout (u_URL cfg) headers tls
              else if transport = TransportHTTPStream then
                httpstream_Dial N (httpClient tls) (u_URL cfg) headers
              else if transport = TransportGRPC then grpc_Dial N (httpClient tls) (u_URL cfg) headers
              else if transport = TransportXHTTP then xhttp_Dial N (httpClient tls) (u_URL cfg) headers
              else if transport = TransportHTTP3 then Inl (kless_ErrUnsupported N)
              else Inl (ErrQ ''unsupported transport'' transport)))"

text \<open>The result and the connections closed on the way.\<close>

definition Dial :: "env \<Rightarrow> net_lib \<Rightarrow> UpstreamDialer \<Rightarrow> (DialError + nat) \<times> nat list" where
  "Dial E N d =
     (case dialRaw E N d of
        Inl err \<Rightarrow> (Inl \<lparr>Stage = StageTransport, StageErr = err\<rparr>, [])
      | Inr raw \<Rightarrow>
          (case ClientConfig E (u_Transport (d_cfg d)) (u_KLESS (d_cfg d)) of
             Inl err \<Rightarrow> (Inl \<lparr>Stage = StageHandshake, StageErr = err\<rparr>, [raw])
           | Inr clientCfg \<Rightarrow>
               (case ClientHandshake N raw clientCfg of
                  Some err \<Rightarrow> (Inl \<lparr>Stage = StageHandshake, StageErr = err\<rparr>, [raw])
                | None \<Rightarrow> (Inr raw, []))))"

section \<open>check-upstreams\<close>

text \<open>
  \<open>CheckUpstreams\<close> on the upstreams of a validated configuration, with the connections closed
  and the names logged as ok, in order.
\<close>

fun check_upstreams_loop ::
  "env \<Rightarrow> net_lib \<Rightarrow> UpstreamConfig list \<Rightarrow> go_error option \<times> nat list \<times> string list"
where
  "check_upstreams_loop E N [] = (None, [], [])"
| "check_upstreams_loop E N (upstream # rest) =
     (case NewUpstreamDialer E upstream of
        Inl err \<Rightarrow> (Some (WrapQ ''upstream'' (u_Name upstream) err), [], [])
      | Inr dialer \<Rightarrow>
          (case Dial E N dialer of
             (Inl err, conns) \<Rightarrow>
               (Some (WrapQ ''upstream'' (u_Name upstream) (dial_error err)), conns, [])
           | (Inr conn, conns) \<Rightarrow>
               (let (err, conns', oks) = check_upstreams_loop E N rest
                in (err, conns @ conn # conns', u_Name upstream # oks))))"

definition CheckUpstreams ::
  "env \<Rightarrow> net_lib \<Rightarrow> Config \<Rightarrow> go_error option \<times> nat list \<times> string list"
where
  "CheckUpstreams E N cfg0 =
     (case Config_Validate E cfg0 of
        Inl err \<Rightarrow> (Some err, [], [])
      | Inr cfg \<Rightarrow> check_upstreams_loop E N (c_Upstreams cfg))"

section \<open>A validated upstream\<close>

lemma valid_upstream_stable:
  assumes "Config_Validate E c0 = Inr c" and "u \<in> set (c_Upstreams c)"
  shows "UpstreamConfig_Validate E u = Inr u"
proof -
  have norm: "c = normalize_config E c0" and valid: "valid_Config E c"
    using assms(1) unfolding Config_Validate_iff by blast+
  obtain u0 where u0: "u = UpstreamConfig_applyDefaults E u0"
    using assms(2) by (auto simp: norm normalize_config_def Let_def)
  have vu: "valid_UpstreamConfig E u" using valid assms(2) by (auto simp: valid_Config_def)
  then have "UpstreamConfig_applyDefaults E u = u"
    by (intro UpstreamConfig_applyDefaults_stable [OF u0]) (simp add: valid_UpstreamConfig_def)
  with vu show ?thesis unfolding UpstreamConfig_Validate_iff by simp
qed

lemma NewUpstreamDialer_validated:
  assumes "Config_Validate E c0 = Inr c" and "u \<in> set (c_Upstreams c)"
  shows "NewUpstreamDialer E u = Inr \<lparr>d_cfg = u\<rparr>"
  using valid_upstream_stable [OF assms] by (simp add: NewUpstreamDialer_def)

lemma ClientConfig_valid:
  assumes "valid_KLESSConfig E transport k" shows "is_ok (ClientConfig E transport k)"
proof -
  obtain secret where "decodeKey (k_ClientSecret k) = Inr secret"
    using assms by (auto simp: valid_KLESSConfig_def good_secret_def split: sum.splits)
  moreover obtain key where "decodeKey (k_ServerSigningKey k) = Inr key"
    using assms by (auto simp: valid_KLESSConfig_def)
  moreover obtain caps where "capabilityMask E transport (k_Capabilities k) = Inr caps"
    using assms by (auto simp: valid_KLESSConfig_def is_ok_iff)
  moreover obtain d where "parseDuration (k_HandshakeTimeout k) DefaultHandshakeTimeout = Inr d"
    using assms by (metis ex_parseDuration valid_KLESSConfig_def)
  ultimately show ?thesis by (simp add: ClientConfig_def key_bytes_defs)
qed

lemma ClientConfig_fields:
  assumes "ClientConfig E transport k = Inr cc" and "valid_KLESSConfig E transport k"
  shows "32 \<le> length (kc_ClientSecret cc) \<and> length (kc_ServerSigningKey cc) = 32 \<and>
    kc_ClientSecret cc \<noteq> kc_ServerSigningKey cc \<and> 0 < kc_HandshakeTimeout cc"
  using assms
  by (auto simp: ClientConfig_def valid_KLESSConfig_def key_bytes_defs good_secret_def unmixed_def
      parseDuration_def DefaultHandshakeTimeout_def Second_def split: sum.splits if_splits)

text \<open>
  Dialling a valid upstream fails only where the network does: the stage is \<open>transport\<close>, or
  the peer refused the handshake.
\<close>

lemma Dial_handshake_error:
  assumes "valid_UpstreamConfig E (d_cfg d)" and "Dial E N d = (Inl e, conns)"
    and "Stage e = StageHandshake"
  shows "\<exists>raw cc. dialRaw E N d = Inr raw \<and> ClientHandshake N raw cc = Some (StageErr e) \<and> conns = [raw]"
proof -
  have "valid_KLESSConfig E (u_Transport (d_cfg d)) (u_KLESS (d_cfg d))"
    using assms(1) by (simp add: valid_UpstreamConfig_def)
  then obtain cc where cc: "ClientConfig E (u_Transport (d_cfg d)) (u_KLESS (d_cfg d)) = Inr cc"
    using ClientConfig_valid unfolding is_ok_iff by blast
  show ?thesis
    using assms(2,3) cc
    by (auto simp: Dial_def StageTransport_def StageHandshake_def split: sum.splits option.splits)
qed

text \<open>No connection leaks: what was opened is either returned or closed.\<close>

lemma Dial_no_leak:
  "Dial E N d = (res, conns) \<Longrightarrow>
     (case dialRaw E N d of
        Inl _ \<Rightarrow> \<not> is_ok res \<and> conns = []
      | Inr raw \<Rightarrow> (res = Inr raw \<and> conns = []) \<or> (\<not> is_ok res \<and> conns = [raw]))"
  by (auto simp: Dial_def split: sum.splits option.splits)

lemma dialRaw_http3:
  "u_Transport (d_cfg d) = TransportHTTP3 \<Longrightarrow> \<not> is_ok (dialRaw E N d)"
  by (auto simp: dialRaw_def transport_defs Let_def split: sum.splits)

lemma Dial_http3:
  "u_Transport (d_cfg d) = TransportHTTP3 \<Longrightarrow> \<not> is_ok (fst (Dial E N d))"
  using dialRaw_http3 [of d E N] by (auto simp: Dial_def is_ok_iff split: sum.splits)

lemma check_upstreams_loop_ok:
  assumes "\<forall>u \<in> set us. NewUpstreamDialer E u = Inr \<lparr>d_cfg = u\<rparr>"
  shows "fst (check_upstreams_loop E N us) = None \<longleftrightarrow>
    (\<forall>u \<in> set us. is_ok (fst (Dial E N \<lparr>d_cfg = u\<rparr>)))"
  using assms
proof (induction us)
  case (Cons u us)
  then show ?case
    by (cases "Dial E N \<lparr>d_cfg = u\<rparr>"; cases "fst (Dial E N \<lparr>d_cfg = u\<rparr>)") (auto split: prod.splits)
qed simp

lemma CheckUpstreams_ok:
  "fst (CheckUpstreams E N c0) = None \<longleftrightarrow>
     (\<exists>c. Config_Validate E c0 = Inr c \<and>
          (\<forall>u \<in> set (c_Upstreams c). is_ok (fst (Dial E N \<lparr>d_cfg = u\<rparr>))))"
proof (cases "Config_Validate E c0")
  case (Inr c)
  have "\<forall>u \<in> set (c_Upstreams c). NewUpstreamDialer E u = Inr \<lparr>d_cfg = u\<rparr>"
    using NewUpstreamDialer_validated [OF Inr] by blast
  from check_upstreams_loop_ok [OF this] show ?thesis
    by (simp add: CheckUpstreams_def Inr)
qed (simp add: CheckUpstreams_def)

section \<open>Headers and server names\<close>

lemma headerFromMap_snoc:
  "headerFromMap (vs @ [(k, v)]) = (headerFromMap vs)(CanonicalHeaderKey k \<mapsto> v)"
  by (simp add: headerFromMap_def)

lemma headerFromMap_eq: "headerFromMap vs = map_of (rev (map (\<lambda>(k, v). (CanonicalHeaderKey k, v)) vs))"
  by (induction vs rule: rev_induct) (auto simp: headerFromMap_snoc, simp add: headerFromMap_def)

text \<open>The order of the map does not matter when no two keys have the same canonical form.\<close>

lemma headerFromMap_perm:
  assumes "set vs = set ws" and "distinct (map (CanonicalHeaderKey \<circ> fst) vs)"
    and "distinct (map (CanonicalHeaderKey \<circ> fst) ws)"
  shows "headerFromMap vs = headerFromMap ws"
  unfolding headerFromMap_eq
proof (rule map_of_inject_set [THEN iffD2])
  show "set (rev (map (\<lambda>(k, v). (CanonicalHeaderKey k, v)) vs)) = set (rev (map (\<lambda>(k, v). (CanonicalHeaderKey k, v)) ws))"
    using assms(1) by simp
qed (use assms(2,3) in \<open>simp_all add: comp_def split_def rev_map [symmetric]\<close>)

end
