(* ===== verification/Kboard.thy ===== *)
theory Kboard
  imports Config_Idempotent Client_Store Access_Log Metrics Go_Errors
begin

text \<open>
  \<open>internal/node/kboard.go\<close> and \<open>internal/node/build.go\<close>: the reporter that pulls the user list
  from the panel and pushes the node's state, the traffic and the access records to it, every
  request signed with the node's shared secret.

  The JSON codec, the HTTP client and the clock are the record \<open>panel\<close>, an argument of the
  operations; the state the reporter keeps (its ETag) and shares (the credential store, the
  access log) is the record \<open>reporter\<close>, returned updated, with the requests it sent and the
  lines it logged.
\<close>

section \<open>Build information\<close>

definition SetBuildInfo :: "string \<Rightarrow> string" where
  "SetBuildInfo version0 =
     (let version = trim_space version0 in if version = [] then ''dev'' else version)"

definition backendVersion :: "string \<Rightarrow> string" where
  "backendVersion buildVersion = ''knode-'' @ buildVersion"

section \<open>The outside\<close>

record users_response =
  ur_ProtocolVersion :: string
  ur_NodeID :: int
  ur_Users :: "KboardUser list option"
  ur_Count :: int
  ur_PulledAt :: int

datatype payload =
    AlivePayload int int string string string string
  | TrafficPayload string
  | AccessPayload string "kboardAccessLogItem list"

record http_request =
  hr_Method :: string
  hr_URL :: string
  hr_Headers :: "(string \<times> string) list"
  hr_Body :: bytes

record http_response =
  StatusCode :: int
  StatusText :: string
  ETag :: string
  Body :: bytes

text \<open>
  \<open>json_Marshal\<close> encodes a payload; \<open>json_Value\<close> reads the first JSON value of a body,
  \<open>json_plain\<close> and \<open>json_wrapped\<close> decode it as a response and as a response under \<open>"data"\<close>.
  \<open>http_Do\<close> is the client; the body of a response is what can be read of it.
  \<open>relay_records\<close> are the records the relays make while a batch is with the panel: \<open>Record\<close>
  runs in their goroutines, and the buffer is not locked during the post.
\<close>

record panel =
  json_Marshal :: "payload \<Rightarrow> go_error + bytes"
  json_Value :: "bytes \<Rightarrow> go_error + bytes"
  json_plain :: "bytes \<Rightarrow> go_error + users_response"
  json_wrapped :: "bytes \<Rightarrow> go_error + users_response"
  http_Do :: "http_request \<Rightarrow> go_error + http_response"
  unix_time :: int
  unix_nano :: int
  relay_records :: "kboardAccessLogItem list"

datatype report_log =
    LogUsersFailed go_error
  | LogInvalidSecret int string
  | LogUsersLoaded nat
  | LogAliveFailed go_error
  | LogTrafficFailed go_error
  | LogAccessFailed go_error

record reporter =
  r_cfg :: KboardConfig
  r_nodeID :: string
  r_hostname :: string
  r_runtimeInfo :: string
  r_arch :: string
  r_buildVersion :: string
  r_userStore :: "dynamicClientStore option"
  r_usersETag :: string
  r_accessLogs :: "accessLogBuffer option"
  r_sent :: "http_request list"
  r_log :: "report_log list"

definition log_line :: "report_log \<Rightarrow> reporter \<Rightarrow> reporter" where
  "log_line l r = r\<lparr>r_log := r_log r @ [l]\<rparr>"

definition newKboardReporter ::
  "KboardConfig \<Rightarrow> string \<Rightarrow> string \<Rightarrow> string \<Rightarrow> string \<Rightarrow> string \<Rightarrow> dynamicClientStore option \<Rightarrow>
   accessLogBuffer option \<Rightarrow> reporter"
where
  "newKboardReporter cfg nodeID hostname runtimeInfo arch buildVersion userStore accessLogs =
     \<lparr>r_cfg = cfg, r_nodeID = nodeID, r_hostname = hostname, r_runtimeInfo = runtimeInfo,
      r_arch = arch, r_buildVersion = buildVersion, r_userStore = userStore, r_usersETag = [],
      r_accessLogs = accessLogs, r_sent = [], r_log = []\<rparr>"

section \<open>Small functions\<close>

definition hmacSignature ::
  "string \<Rightarrow> string \<Rightarrow> string \<Rightarrow> string \<Rightarrow> string \<Rightarrow> string \<Rightarrow> string"
where
  "hmacSignature secret method path rawQuery nodeID timestamp =
     hex_EncodeToString
       (hmac sha256_Sum256 64 (bytes_of_string secret)
         (bytes_of_string (join [CHR 0x0A] [method, path, rawQuery, nodeID, timestamp])))"

text \<open>\<open>int\<close> is 64 bits wide on the platforms the node is built for.\<close>

definition maxInt :: int where
  "maxInt = 2 ^ 63 - 1"

definition onlineCount :: "int \<Rightarrow> int" where
  "onlineCount active = (if active \<le> 0 then 0 else if active > maxInt then maxInt else active)"

definition batch_char :: "char \<Rightarrow> bool" where
  "batch_char c \<longleftrightarrow>
     (let n = (of_char c :: nat)
      in (97 \<le> n \<and> n \<le> 122) \<or> (65 \<le> n \<and> n \<le> 90) \<or> (48 \<le> n \<and> n \<le> 57) \<or>
         c = CHR ''-'' \<or> c = CHR ''_'')"

text \<open>
  The loop ranges over runes and keeps ASCII ones only; every byte of another rune is above
  \<open>0x7F\<close> and dropped as well, so filtering bytes gives the same text.
\<close>

definition safeBatchNodeID :: "string \<Rightarrow> string" where
  "safeBatchNodeID nodeID0 =
     (let nodeID = trim_space nodeID0
      in if nodeID = [] then ''node''
         else (let b = filter batch_char nodeID in if length b = 0 then ''node'' else b))"

definition endpointURL :: "KboardConfig \<Rightarrow> string \<Rightarrow> string" where
  "endpointURL cfg endpoint =
     (if prefix ''http://'' endpoint \<or> prefix ''https://'' endpoint then endpoint
      else trim_right_slash (kb_PublicURL cfg) @ endpoint)"

text \<open>\<open>UnmarshalJSON\<close>: the response itself, or, when none of its fields is there, the one under \<open>data\<close>.\<close>

definition empty_response :: "users_response \<Rightarrow> bool" where
  "empty_response plain \<longleftrightarrow>
     \<not> (ur_ProtocolVersion plain \<noteq> [] \<or> ur_NodeID plain \<noteq> 0 \<or> ur_Users plain \<noteq> None \<or>
        ur_Count plain \<noteq> 0 \<or> ur_PulledAt plain \<noteq> 0)"

definition UnmarshalJSON :: "panel \<Rightarrow> bytes \<Rightarrow> go_error + users_response" where
  "UnmarshalJSON P data =
     (case json_plain P data of
        Inl err \<Rightarrow> Inl err
      | Inr plain \<Rightarrow> if \<not> empty_response plain then Inr plain else json_wrapped P data)"

section \<open>Requests\<close>

text \<open>The path the signature covers: the escaped path of the URL, \<open>/\<close> for an empty one.\<close>

definition signature_path :: "parsed_url \<Rightarrow> string" where
  "signature_path u = (if url_EscapedPath u = [] then ''/'' else url_EscapedPath u)"

definition sign ::
  "env \<Rightarrow> panel \<Rightarrow> reporter \<Rightarrow> string \<Rightarrow> string \<Rightarrow> go_error + (string \<times> string) list"
where
  "sign E P r rawURL method =
     (let now = itoa (unix_time P)
      in case url_Parse E rawURL of
           Inl err \<Rightarrow> Inl err
         | Inr reqURL \<Rightarrow>
             (let signature = hmacSignature (kb_NodeSharedSecret (r_cfg r)) method
                    (signature_path reqURL) (url_RawQuery reqURL) (kb_NodeID (r_cfg r)) now
              in Inr [(''User-Agent'', ''knode/'' @ backendVersion (r_buildVersion r)),
                      (''X-KBoard-Node-ID'', kb_NodeID (r_cfg r)),
                      (''X-KBoard-Timestamp'', now),
                      (''X-KBoard-Signature'', signature)]))"

text \<open>The error for a status outside 200 to 299, with the start of the body when there is one.\<close>

definition maxKboardErrorBody :: nat where
  "maxKboardErrorBody = 4096"

definition error_body :: "http_response \<Rightarrow> string" where
  "error_body resp = map (\<lambda>b. char_of (unat b)) (take maxKboardErrorBody (Body resp))"

definition status_error :: "http_response \<Rightarrow> go_error" where
  "status_error resp =
     (if length (error_body resp) > 0
      then Err (''unexpected status '' @ StatusText resp @ '': '' @ trim_space (error_body resp))
      else Err (''unexpected status '' @ StatusText resp))"

definition post_request :: "panel \<Rightarrow> reporter \<Rightarrow> string \<Rightarrow> parsed_url \<Rightarrow> bytes \<Rightarrow> http_request" where
  "post_request P r rawURL reqURL body =
     (let now = itoa (unix_time P);
          signature = hmacSignature (kb_NodeSharedSecret (r_cfg r)) ''POST''
            (signature_path reqURL) (url_RawQuery reqURL) (kb_NodeID (r_cfg r)) now
      in \<lparr>hr_Method = ''POST'', hr_URL = rawURL,
          hr_Headers =
            [(''Content-Type'', ''application/json''),
             (''User-Agent'', ''knode/'' @ backendVersion (r_buildVersion r)),
             (''X-KBoard-Node-ID'', kb_NodeID (r_cfg r)),
             (''X-KBoard-Timestamp'', now),
             (''X-KBoard-Signature'', signature)],
          hr_Body = body\<rparr>)"

definition send :: "http_request \<Rightarrow> reporter \<Rightarrow> reporter" where
  "send req r = r\<lparr>r_sent := r_sent r @ [req]\<rparr>"

text \<open>
  \<open>http.NewRequestWithContext\<close> fails exactly when the URL does not parse (the methods are
  valid and the context is there).
\<close>

definition postJSON ::
  "env \<Rightarrow> panel \<Rightarrow> string \<Rightarrow> payload \<Rightarrow> reporter \<Rightarrow> go_error option \<times> reporter"
where
  "postJSON E P endpoint pl r =
     (case json_Marshal P pl of
        Inl err \<Rightarrow> (Some err, r)
      | Inr body \<Rightarrow>
          (let rawURL = endpointURL (r_cfg r) endpoint
           in case url_Parse E rawURL of
                Inl err \<Rightarrow> (Some err, r)
              | Inr _ \<Rightarrow>
                  (case url_Parse E rawURL of
                     Inl err \<Rightarrow> (Some err, r)
                   | Inr reqURL \<Rightarrow>
                       (let req = post_request P r rawURL reqURL body
                        in case http_Do P req of
                             Inl err \<Rightarrow> (Some err, send req r)
                           | Inr resp \<Rightarrow>
                               if StatusCode resp < 200 \<or> StatusCode resp \<ge> 300
                               then (Some (status_error resp), send req r)
                               else (None, send req r)))))"

text \<open>The request of \<open>getJSON\<close>: conditional when an ETag is known, then the signature headers.\<close>

definition get_request :: "string \<Rightarrow> string \<Rightarrow> (string \<times> string) list \<Rightarrow> http_request" where
  "get_request rawURL etag sig_headers =
     \<lparr>hr_Method = ''GET'', hr_URL = rawURL,
      hr_Headers = (if etag \<noteq> [] then [(''If-None-Match'', etag)] else []) @ sig_headers,
      hr_Body = []\<rparr>"

text \<open>The answer of \<open>getJSON\<close>: the ETag, whether the list is unmodified, and the decoded list.\<close>

definition getJSON ::
  "env \<Rightarrow> panel \<Rightarrow> string \<Rightarrow> string \<Rightarrow> reporter \<Rightarrow>
   (go_error + string \<times> bool \<times> users_response option) \<times> reporter"
where
  "getJSON E P endpoint etag r =
     (let rawURL = endpointURL (r_cfg r) endpoint
      in case url_Parse E rawURL of
           Inl err \<Rightarrow> (Inl err, r)
         | Inr _ \<Rightarrow>
             (case sign E P r rawURL ''GET'' of
                Inl err \<Rightarrow> (Inl err, r)
              | Inr sig_headers \<Rightarrow>
                  (let req = get_request rawURL etag sig_headers
                   in case http_Do P req of
                        Inl err \<Rightarrow> (Inl err, send req r)
                      | Inr resp \<Rightarrow>
                          if StatusCode resp = 304 then (Inr (ETag resp, True, None), send req r)
                          else if StatusCode resp < 200 \<or> StatusCode resp \<ge> 300
                          then (Inl (status_error resp), send req r)
                          else (case json_Value P (Body resp) of
                                  Inl err \<Rightarrow> (Inl err, send req r)
                                | Inr data \<Rightarrow>
                                    (case UnmarshalJSON P data of
                                       Inl err \<Rightarrow> (Inl err, send req r)
                                     | Inr users \<Rightarrow> (Inr (ETag resp, False, Some users), send req r))))))"

section \<open>The user list\<close>

text \<open>The credential of one user; \<open>None\<close> with a log line when the secret does not decode.\<close>

definition userCredential ::
  "KboardConfig \<Rightarrow> KboardUser \<Rightarrow> ClientCredential option \<times> report_log list"
where
  "userCredential cfg user =
     (let clientID = clientIDForUser user
      in if clientID = [] then (None, [])
         else
           (let secretText = trim_space (user_KLESSSecret user);
                secretText = (if secretText = [] then trim_space (user_ClientSecret user) else secretText)
            in if secretText \<noteq> [] then
                 (case decodeKLESSKey secretText of
                    Inl _ \<Rightarrow> (None, [LogInvalidSecret (user_ID user) clientID])
                  | Inr decoded \<Rightarrow>
                      if length decoded < 32
                      then (None, [LogInvalidSecret (user_ID user) clientID])
                      else (Some \<lparr>cred_ClientID = clientID, cred_Secret = decoded,
                                  cred_UserID = user_ID user\<rparr>, []))
               else (Some \<lparr>cred_ClientID = clientID,
                           cred_Secret = deriveUserClientSecret (kb_NodeSharedSecret cfg)
                             (user_UUID user) (user_Token user),
                           cred_UserID = user_ID user\<rparr>, [])))"

fun user_credentials ::
  "KboardConfig \<Rightarrow> KboardUser list \<Rightarrow> ClientCredential list \<times> report_log list"
where
  "user_credentials cfg [] = ([], [])"
| "user_credentials cfg (user # users) =
     (let (credential, lines) = userCredential cfg user;
          (credentials, lines') = user_credentials cfg users
      in (case credential of None \<Rightarrow> credentials | Some c \<Rightarrow> c # credentials, lines @ lines'))"

definition syncUsers :: "env \<Rightarrow> panel \<Rightarrow> reporter \<Rightarrow> reporter" where
  "syncUsers E P r =
     (case r_userStore r of
        None \<Rightarrow> r
      | Some store \<Rightarrow>
          if kb_UsersEndpoint (r_cfg r) = [] then r
          else
            (case getJSON E P (kb_UsersEndpoint (r_cfg r)) (r_usersETag r) r of
               (Inl err, r) \<Rightarrow> log_line (LogUsersFailed err) r
             | (Inr (etag, notModified, users), r) \<Rightarrow>
                 (let r = (if etag \<noteq> [] then r\<lparr>r_usersETag := etag\<rparr> else r)
                  in if notModified then r
                     else
                       (let list = (case users of None \<Rightarrow> [] | Some u \<Rightarrow>
                              (case ur_Users u of None \<Rightarrow> [] | Some l \<Rightarrow> l));
                            (credentials, lines) = user_credentials (r_cfg r) list
                        in log_line (LogUsersLoaded (length credentials))
                             (r\<lparr>r_userStore := Some (ReplaceDynamic credentials store),
                               r_log := r_log r @ lines\<rparr>)))))"

section \<open>Reports\<close>

definition reportAlive :: "env \<Rightarrow> panel \<Rightarrow> int \<Rightarrow> reporter \<Rightarrow> reporter" where
  "reportAlive E P active r =
     (if kb_AliveEndpoint (r_cfg r) = [] then r
      else
        (case postJSON E P (kb_AliveEndpoint (r_cfg r))
               (AlivePayload (onlineCount active) (unix_time P) (backendVersion (r_buildVersion r))
                 (r_runtimeInfo r) (r_hostname r) (r_arch r)) r of
           (Some err, r) \<Rightarrow> log_line (LogAliveFailed err) r
         | (None, r) \<Rightarrow> r))"

definition reportTraffic :: "env \<Rightarrow> panel \<Rightarrow> reporter \<Rightarrow> reporter" where
  "reportTraffic E P r =
     (if kb_TrafficEndpoint (r_cfg r) = [] then r
      else
        (case postJSON E P (kb_TrafficEndpoint (r_cfg r))
               (TrafficPayload (''knode-'' @ safeBatchNodeID (r_nodeID r) @ ''-'' @ itoa (unix_nano P))) r of
           (Some err, r) \<Rightarrow> log_line (LogTrafficFailed err) r
         | (None, r) \<Rightarrow> r))"

definition access_payload :: "panel \<Rightarrow> reporter \<Rightarrow> kboardAccessLogItem list \<Rightarrow> payload" where
  "access_payload P r items =
     AccessPayload (''knode-access-'' @ safeBatchNodeID (r_nodeID r) @ ''-'' @ itoa (unix_nano P)) items"

text \<open>What other goroutines record is part of the state the reporter finds when the post is over.\<close>

definition relays_record :: "kboardAccessLogItem list \<Rightarrow> reporter \<Rightarrow> reporter" where
  "relays_record items r = r\<lparr>r_accessLogs := record_all items (r_accessLogs r)\<rparr>"

definition reportAccessLogs :: "env \<Rightarrow> panel \<Rightarrow> reporter \<Rightarrow> reporter" where
  "reportAccessLogs E P r =
     (if kb_AccessLogsEndpoint (r_cfg r) = [] \<or> r_accessLogs r = None then r
      else
        (let (items, logs) = Drain maxAccessLogBatchSize (r_accessLogs r);
             r = r\<lparr>r_accessLogs := logs\<rparr>
         in if length items = 0 then r
            else
              (let (res, r) = postJSON E P (kb_AccessLogsEndpoint (r_cfg r)) (access_payload P r items) r;
                   r = relays_record (relay_records P) r
               in case res of
                    Some err \<Rightarrow>
                      log_line (LogAccessFailed err) (r\<lparr>r_accessLogs := Restore items (r_accessLogs r)\<rparr>)
                  | None \<Rightarrow> r)))"

definition report :: "env \<Rightarrow> panel \<Rightarrow> int \<Rightarrow> reporter \<Rightarrow> reporter" where
  "report E P active r = reportAccessLogs E P (reportTraffic E P (reportAlive E P active (syncUsers E P r)))"

text \<open>
  The loop of \<open>run\<close> over what happens to it: a tick of the report interval, a tick of the
  access-log period (each with the panel and the number of active connections of that moment),
  a record that a relay makes while the loop waits, or the end of the context, after which it
  flushes once and returns.  A record made during a report counts as made before its flush
  or, while the batch is with the panel, as one of \<open>relay_records\<close>: the other requests do not
  touch the buffer.  The second component says whether the loop has returned.
\<close>

datatype report_event =
    Tick panel int
  | AccessTick panel
  | Recorded kboardAccessLogItem
  | Done panel

fun run_loop :: "env \<Rightarrow> report_event list \<Rightarrow> reporter \<Rightarrow> reporter \<times> bool" where
  "run_loop E [] r = (r, False)"
| "run_loop E (Done P # rest) r = (reportAccessLogs E P r, True)"
| "run_loop E (Tick P active # rest) r = run_loop E rest (report E P active r)"
| "run_loop E (AccessTick P # rest) r = run_loop E rest (reportAccessLogs E P r)"
| "run_loop E (Recorded item # rest) r = run_loop E rest (relays_record [item] r)"

definition run_reporter :: "env \<Rightarrow> panel \<Rightarrow> int \<Rightarrow> report_event list \<Rightarrow> reporter \<Rightarrow> reporter \<times> bool" where
  "run_reporter E P active events r = run_loop E events (report E P active r)"

end
