(* ===== verification/Kboard_Facts.thy ===== *)
theory Kboard_Facts
  imports Kboard
begin

text \<open>
  What the reporter guarantees: signatures, the strength of the secrets it installs, the
  stability of the fixed credentials, and that an access record is either accepted by the
  panel or still in the buffer (up to the buffer's bound).
\<close>

section \<open>Shared simplification\<close>

lemma log_line_simps [simp]:
  "r_cfg (log_line l r) = r_cfg r" "r_userStore (log_line l r) = r_userStore r"
  "r_usersETag (log_line l r) = r_usersETag r" "r_accessLogs (log_line l r) = r_accessLogs r"
  "r_sent (log_line l r) = r_sent r" "r_buildVersion (log_line l r) = r_buildVersion r"
  "r_nodeID (log_line l r) = r_nodeID r"
  by (simp_all add: log_line_def)

text \<open>A request changes nothing but the list of sent requests.\<close>

lemma postJSON_sends:
  "postJSON E P endpoint pl r = (res, r') \<Longrightarrow>
     r' = r \<or> (\<exists>u reqURL body. url_Parse E u = Inr reqURL \<and> r' = send (post_request P r u reqURL body) r)"
  by (auto simp: postJSON_def Let_def split: sum.splits if_splits)

lemma getJSON_sends:
  "getJSON E P endpoint etag r = (res, r') \<Longrightarrow>
     r' = r \<or> (\<exists>u sig_headers. sign E P r u ''GET'' = Inr sig_headers \<and>
                   r' = send (get_request u etag sig_headers) r)"
  by (auto simp: getJSON_def Let_def split: sum.splits if_splits)

lemma postJSON_only_sends:
  "postJSON E P endpoint pl r = (res, r') \<Longrightarrow> r' = r\<lparr>r_sent := r_sent r'\<rparr>"
  by (auto simp: send_def dest!: postJSON_sends)

lemma getJSON_only_sends:
  "getJSON E P endpoint etag r = (res, r') \<Longrightarrow> r' = r\<lparr>r_sent := r_sent r'\<rparr>"
  by (auto simp: send_def dest!: getJSON_sends)

section \<open>Signatures\<close>

lemma hmacSignature_shape:
  "length (hmacSignature secret method path rawQuery nodeID timestamp) = 64 \<and>
   (\<forall>c \<in> set (hmacSignature secret method path rawQuery nodeID timestamp). is_hex_char c)"
  using sha.hmac_length by (auto simp: hmacSignature_def hex_chars)

text \<open>
  A correctly signed request: the panel, which knows the shared secret, can recompute the
  signature from the method, the URL and the headers of the request.
\<close>

definition correctly_signed :: "env \<Rightarrow> KboardConfig \<Rightarrow> http_request \<Rightarrow> bool" where
  "correctly_signed E cfg req \<longleftrightarrow>
     (case url_Parse E (hr_URL req) of
        Inl _ \<Rightarrow> False
      | Inr u \<Rightarrow>
          (case (map_of (hr_Headers req) ''X-KBoard-Timestamp'',
                 map_of (hr_Headers req) ''X-KBoard-Node-ID'',
                 map_of (hr_Headers req) ''X-KBoard-Signature'') of
             (Some ts, Some node, Some sig) \<Rightarrow>
               node = kb_NodeID cfg \<and>
               sig = hmacSignature (kb_NodeSharedSecret cfg) (hr_Method req) (signature_path u)
                       (url_RawQuery u) node ts
           | _ \<Rightarrow> False))"

definition all_signed :: "env \<Rightarrow> reporter \<Rightarrow> bool" where
  "all_signed E r \<longleftrightarrow> (\<forall>req \<in> set (r_sent r). correctly_signed E (r_cfg r) req)"

lemma all_signed_log_line [simp]: "all_signed E (log_line l r) = all_signed E r"
  by (simp add: all_signed_def)

lemma all_signed_updates [simp]:
  "all_signed E (r\<lparr>r_usersETag := e\<rparr>) = all_signed E r"
  "all_signed E (r\<lparr>r_accessLogs := a\<rparr>) = all_signed E r"
  "all_signed E (r\<lparr>r_userStore := s, r_log := l\<rparr>) = all_signed E r"
  by (simp_all add: all_signed_def)

lemma signed_post:
  "url_Parse E u = Inr reqURL \<Longrightarrow> correctly_signed E (r_cfg r) (post_request P r u reqURL body)"
  by (simp add: correctly_signed_def post_request_def Let_def)

lemma signed_get:
  "sign E P r u ''GET'' = Inr sig_headers \<Longrightarrow> correctly_signed E (r_cfg r) (get_request u etag sig_headers)"
  by (auto simp: correctly_signed_def get_request_def sign_def Let_def split: sum.splits)

lemma all_signed_send:
  "all_signed E r \<Longrightarrow> correctly_signed E (r_cfg r) req \<Longrightarrow> all_signed E (send req r)"
  by (simp add: all_signed_def send_def)

lemma postJSON_signed:
  "postJSON E P endpoint pl r = (res, r') \<Longrightarrow> all_signed E r \<Longrightarrow> all_signed E r'"
  by (auto dest!: postJSON_sends intro: all_signed_send signed_post)

lemma getJSON_signed:
  "getJSON E P endpoint etag r = (res, r') \<Longrightarrow> all_signed E r \<Longrightarrow> all_signed E r'"
  by (auto dest!: getJSON_sends intro: all_signed_send signed_get)

section \<open>Invariants of the reports\<close>

text \<open>What no operation of the reporter touches.\<close>

definition fixed_part :: "reporter \<Rightarrow> KboardConfig \<times> string \<times> (string \<Rightarrow> bytes option) option" where
  "fixed_part r = (r_cfg r, r_nodeID r, map_option staticSecrets (r_userStore r))"

lemma fixed_part_updates [simp]:
  "fixed_part (log_line l r) = fixed_part r"
  "fixed_part (r\<lparr>r_sent := s\<rparr>) = fixed_part r"
  "fixed_part (r\<lparr>r_usersETag := e\<rparr>) = fixed_part r"
  "fixed_part (r\<lparr>r_accessLogs := a\<rparr>) = fixed_part r"
  by (simp_all add: fixed_part_def)

lemma userCredential_strong:
  "userCredential cfg user = (Some cr, lines) \<Longrightarrow>
     32 \<le> length (cred_Secret cr) \<and> cred_ClientID cr = clientIDForUser user \<and>
     cred_UserID cr = user_ID user \<and> cred_ClientID cr \<noteq> []"
  by (auto simp: userCredential_def Let_def split: if_splits sum.splits)

lemma user_credentials_mem:
  "cr \<in> set (fst (user_credentials cfg users)) \<Longrightarrow>
     \<exists>user \<in> set users. fst (userCredential cfg user) = Some cr"
  by (induction users) (auto simp: split_def Let_def split: option.splits)

lemma user_credentials_strong:
  "cr \<in> set (fst (user_credentials cfg users)) \<Longrightarrow> 32 \<le> length (cred_Secret cr)"
  using userCredential_strong by (metis prod.collapse user_credentials_mem)

text \<open>Every credential the panel installs has at least 32 bytes of secret.\<close>

definition strong_store :: "dynamicClientStore \<Rightarrow> bool" where
  "strong_store s \<longleftrightarrow> (\<forall>c secret. dynamicSecrets s c = Some secret \<longrightarrow> 32 \<le> length secret)"

definition reporter_inv :: "env \<Rightarrow> reporter \<Rightarrow> bool" where
  "reporter_inv E r \<longleftrightarrow>
     all_signed E r \<and>
     (\<forall>s \<in> set_option (r_userStore r). store_inv s \<and> strong_store s) \<and>
     (\<forall>b \<in> set_option (r_accessLogs r). length (log_items b) \<le> maxAccessLogQueueSize)"

lemma strong_store_replace:
  "strong_store (ReplaceDynamic (fst (user_credentials cfg users)) s)"
  by (auto simp: strong_store_def store_op_eqs secrets_of_def
      dest!: last_for_Some intro: user_credentials_strong)

lemma reporter_inv_updates [simp]:
  "reporter_inv E (log_line l r) = reporter_inv E r"
  "reporter_inv E (r\<lparr>r_usersETag := e\<rparr>) = reporter_inv E r"
  by (simp_all add: reporter_inv_def)

lemma reporter_inv_new_store:
  "reporter_inv E r \<Longrightarrow> store_inv s \<Longrightarrow> strong_store s \<Longrightarrow>
     reporter_inv E (r\<lparr>r_userStore := Some s, r_log := l\<rparr>)"
  by (simp add: reporter_inv_def)

lemma postJSON_preserves:
  assumes "postJSON E P endpoint pl r = (res, r')"
  shows "fixed_part r' = fixed_part r" "r_userStore r' = r_userStore r"
    "r_accessLogs r' = r_accessLogs r" "r_cfg r' = r_cfg r"
    "reporter_inv E r \<Longrightarrow> reporter_inv E r'"
proof -
  have eq: "r' = r\<lparr>r_sent := r_sent r'\<rparr>" by (rule postJSON_only_sends [OF assms])
  show "fixed_part r' = fixed_part r" "r_userStore r' = r_userStore r"
    "r_accessLogs r' = r_accessLogs r" "r_cfg r' = r_cfg r"
    by (subst eq, simp)+
  then show "reporter_inv E r \<Longrightarrow> reporter_inv E r'"
    using postJSON_signed [OF assms] by (simp add: reporter_inv_def)
qed

lemma getJSON_preserves:
  assumes "getJSON E P endpoint etag r = (res, r')"
  shows "fixed_part r' = fixed_part r" "r_userStore r' = r_userStore r"
    "r_accessLogs r' = r_accessLogs r" "r_cfg r' = r_cfg r" "r_usersETag r' = r_usersETag r"
    "reporter_inv E r \<Longrightarrow> reporter_inv E r'"
proof -
  have eq: "r' = r\<lparr>r_sent := r_sent r'\<rparr>" by (rule getJSON_only_sends [OF assms])
  show "fixed_part r' = fixed_part r" "r_userStore r' = r_userStore r"
    "r_accessLogs r' = r_accessLogs r" "r_cfg r' = r_cfg r" "r_usersETag r' = r_usersETag r"
    by (subst eq, simp)+
  then show "reporter_inv E r \<Longrightarrow> reporter_inv E r'"
    using getJSON_signed [OF assms] by (simp add: reporter_inv_def)
qed

section \<open>Synchronising the users\<close>

text \<open>What one synchronisation does to the store.\<close>

definition pulled_users :: "users_response option \<Rightarrow> KboardUser list" where
  "pulled_users users =
     (case users of None \<Rightarrow> [] | Some u \<Rightarrow> (case ur_Users u of None \<Rightarrow> [] | Some l \<Rightarrow> l))"

lemma syncUsers_cases:
  assumes "r_userStore r = Some store" and "kb_UsersEndpoint (r_cfg r) \<noteq> []"
  shows "(\<exists>err r1. getJSON E P (kb_UsersEndpoint (r_cfg r)) (r_usersETag r) r = (Inl err, r1) \<and>
            syncUsers E P r = log_line (LogUsersFailed err) r1) \<or>
         (\<exists>etag users r1. getJSON E P (kb_UsersEndpoint (r_cfg r)) (r_usersETag r) r = (Inr (etag, True, users), r1) \<and>
            syncUsers E P r = (if etag \<noteq> [] then r1\<lparr>r_usersETag := etag\<rparr> else r1)) \<or>
         (\<exists>etag users r1 lines. getJSON E P (kb_UsersEndpoint (r_cfg r)) (r_usersETag r) r = (Inr (etag, False, users), r1) \<and>
            syncUsers E P r = log_line (LogUsersLoaded (length (fst (user_credentials (r_cfg r) (pulled_users users)))))
              ((if etag \<noteq> [] then r1\<lparr>r_usersETag := etag\<rparr> else r1)
                 \<lparr>r_userStore := Some (ReplaceDynamic (fst (user_credentials (r_cfg r) (pulled_users users))) store),
                  r_log := lines\<rparr>))"
proof -
  obtain res r1 where get: "getJSON E P (kb_UsersEndpoint (r_cfg r)) (r_usersETag r) r = (res, r1)"
    by (cases "getJSON E P (kb_UsersEndpoint (r_cfg r)) (r_usersETag r) r") auto
  have cfg: "r_cfg r1 = r_cfg r" by (rule getJSON_preserves(4) [OF get])
  show ?thesis
  proof (cases res)
    case (Inl err)
    with get assms show ?thesis by (simp add: syncUsers_def)
  next
    case (Inr ans)
    obtain etag nm users where "ans = (etag, nm, users)" by (cases ans) auto
    with Inr get assms cfg show ?thesis
      by (cases nm) (auto simp: syncUsers_def Let_def pulled_users_def split_def)
  qed
qed

lemma syncUsers_inv: "reporter_inv E r \<Longrightarrow> reporter_inv E (syncUsers E P r)"
proof -
  assume inv: "reporter_inv E r"
  show ?thesis
  proof (cases "r_userStore r = None \<or> kb_UsersEndpoint (r_cfg r) = []")
    case True
    with inv show ?thesis by (auto simp: syncUsers_def split: option.splits)
  next
    case False
    then obtain store where store: "r_userStore r = Some store" "kb_UsersEndpoint (r_cfg r) \<noteq> []" by auto
    have ok: "store_inv store" using inv store by (simp add: reporter_inv_def)
    show ?thesis
      using syncUsers_cases [OF store, of E P]
      by (elim disjE exE conjE)
        (simp_all add: ok inv getJSON_preserves(6) reporter_inv_new_store strong_store_replace)
  qed
qed

lemma syncUsers_fixed: "fixed_part (syncUsers E P r) = fixed_part r"
proof (cases "r_userStore r = None \<or> kb_UsersEndpoint (r_cfg r) = []")
  case True
  then show ?thesis by (auto simp: syncUsers_def split: option.splits)
next
  case False
  then obtain store where store: "r_userStore r = Some store" "kb_UsersEndpoint (r_cfg r) \<noteq> []" by auto
  have new: "fixed_part (r1\<lparr>r_userStore := Some (ReplaceDynamic cs store), r_log := l\<rparr>) = fixed_part r"
    if "fixed_part r1 = fixed_part r" for r1 cs l
    using that by (auto simp: fixed_part_def store store_op_eqs)
  show ?thesis
    using syncUsers_cases [OF store, of E P]
    by (elim disjE exE conjE) (simp_all add: getJSON_preserves(1) new)
qed

text \<open>
  The secrets a relay can look up after a synchronisation: unchanged when the panel does not
  answer with a list, else the fixed ones overridden by the pulled ones.
\<close>

lemma syncUsers_lookup:
  assumes "r_userStore r = Some store" and "kb_UsersEndpoint (r_cfg r) \<noteq> []"
    and "getJSON E P (kb_UsersEndpoint (r_cfg r)) (r_usersETag r) r = (res, r1)"
    and "r_userStore (syncUsers E P r) = Some store'"
  shows "LookupClientSecret store' =
    (case res of
       Inr (etag, False, users) \<Rightarrow>
         staticSecrets store ++ secrets_of (fst (user_credentials (r_cfg r) (pulled_users users)))
     | _ \<Rightarrow> LookupClientSecret store)"
proof -
  have same: "r_userStore r1 = Some store" using getJSON_preserves(2) [OF assms(3)] assms(1) by simp
  show ?thesis
    using syncUsers_cases [OF assms(1,2), of E P] assms(3,4) same
    by (elim disjE exE conjE) (auto simp: store.find_replace split: if_splits)
qed

section \<open>The user list the panel answers with\<close>

text \<open>
  The list in a body: the response itself when it has a field, else the one under \<open>data\<close>.
\<close>

definition body_users :: "panel \<Rightarrow> bytes \<Rightarrow> KboardUser list \<Rightarrow> bool" where
  "body_users P data users \<longleftrightarrow>
     (\<exists>plain ans. json_plain P data = Inr plain \<and>
        (if plain = \<lparr>ur_ProtocolVersion = [], ur_NodeID = 0, ur_Users = None, ur_Count = 0, ur_PulledAt = 0\<rparr>
         then json_wrapped P data = Inr ans else ans = plain) \<and>
        users = (case ur_Users ans of None \<Rightarrow> [] | Some list \<Rightarrow> list))"

text \<open>
  The panel answers the reporter's signed request with a list: a status from 200 to 299 and a
  body whose first JSON value is a response.
\<close>

definition panel_lists :: "env \<Rightarrow> panel \<Rightarrow> reporter \<Rightarrow> KboardUser list \<Rightarrow> bool" where
  "panel_lists E P r users \<longleftrightarrow>
     (\<exists>headers resp data.
        sign E P r (endpointURL (r_cfg r) (kb_UsersEndpoint (r_cfg r))) ''GET'' = Inr headers \<and>
        http_Do P (get_request (endpointURL (r_cfg r) (kb_UsersEndpoint (r_cfg r))) (r_usersETag r) headers) = Inr resp \<and>
        200 \<le> StatusCode resp \<and> StatusCode resp < 300 \<and>
        json_Value P (Body resp) = Inr data \<and> body_users P data users)"

lemma UnmarshalJSON_users:
  "body_users P data users \<longleftrightarrow> (\<exists>ans. UnmarshalJSON P data = Inr ans \<and> users = pulled_users (Some ans))"
proof (cases "json_plain P data")
  case (Inl err)
  then show ?thesis by (simp add: body_users_def UnmarshalJSON_def)
next
  case (Inr plain)
  have "empty_response plain \<longleftrightarrow>
      plain = \<lparr>ur_ProtocolVersion = [], ur_NodeID = 0, ur_Users = None, ur_Count = 0, ur_PulledAt = 0\<rparr>"
    by (cases plain) (auto simp: empty_response_def)
  with Inr show ?thesis by (auto simp: body_users_def UnmarshalJSON_def pulled_users_def)
qed

lemma sign_url: "sign E P r u m = Inr h \<Longrightarrow> \<exists>v. url_Parse E u = Inr v"
  by (auto simp: sign_def Let_def split: sum.splits)

lemma getJSON_lists:
  assumes "getJSON E P (kb_UsersEndpoint (r_cfg r)) (r_usersETag r) r = (res, r1)"
  shows "panel_lists E P r users \<longleftrightarrow> (\<exists>etag ans. res = Inr (etag, False, Some ans) \<and> users = pulled_users (Some ans))"
  using assms sign_url [of E P r "endpointURL (r_cfg r) (kb_UsersEndpoint (r_cfg r))" "''GET''"]
  by (auto simp: getJSON_def panel_lists_def UnmarshalJSON_users Let_def split: sum.splits if_splits)

lemma getJSON_answer:
  "getJSON E P endpoint etag r = (Inr (etag', False, users), r1) \<Longrightarrow> users \<noteq> None"
  by (auto simp: getJSON_def Let_def split: sum.splits if_splits)

text \<open>
  The secret of a user: the one of the list, of at least 32 bytes, or, when it gives none, the
  derived one; and of all users of one client the last.
\<close>

definition panel_secret :: "KboardConfig \<Rightarrow> KboardUser \<Rightarrow> bytes option" where
  "panel_secret cfg user =
     (let given = (if trim_space (user_KLESSSecret user) \<noteq> [] then trim_space (user_KLESSSecret user)
                   else trim_space (user_ClientSecret user))
      in if given = [] then Some (deriveUserClientSecret (kb_NodeSharedSecret cfg) (user_UUID user) (user_Token user))
         else (case decodeKLESSKey given of
                 Inl _ \<Rightarrow> None
               | Inr secret \<Rightarrow> if 32 \<le> length secret then Some secret else None))"

definition listed_secret :: "KboardConfig \<Rightarrow> KboardUser list \<Rightarrow> string \<Rightarrow> bytes option" where
  "listed_secret cfg users clientID =
     (case find (\<lambda>user. clientID \<noteq> [] \<and> trim_space (clientIDForUser user) = clientID \<and> panel_secret cfg user \<noteq> None)
             (rev users) of
        None \<Rightarrow> None
      | Some user \<Rightarrow> panel_secret cfg user)"

lemma listed_secret_Nil [simp]: "listed_secret cfg [] clientID = None"
  by (simp add: listed_secret_def)

lemma listed_secret_Cons:
  "listed_secret cfg (user # users) clientID =
     (case listed_secret cfg users clientID of
        Some secret \<Rightarrow> Some secret
      | None \<Rightarrow> if clientID \<noteq> [] \<and> trim_space (clientIDForUser user) = clientID then panel_secret cfg user else None)"
  by (auto simp: listed_secret_def find_append dest!: find_Some_mem split: option.splits)

lemma userCredential_secret:
  "fst (userCredential cfg user) =
     (if clientIDForUser user = [] then None
      else map_option (\<lambda>secret. \<lparr>cred_ClientID = clientIDForUser user, cred_Secret = secret, cred_UserID = user_ID user\<rparr>)
             (panel_secret cfg user))"
  by (auto simp: userCredential_def panel_secret_def Let_def split: sum.splits)

lemma panel_secret_long: "panel_secret cfg user = Some secret \<Longrightarrow> secret \<noteq> []"
  by (auto simp: panel_secret_def deriveUserClientSecret_def Let_def dest: arg_cong [of _ _ length] split: if_splits sum.splits)

lemma secrets_of_Cons:
  "secrets_of (e # entries) clientID =
     (case secrets_of entries clientID of
        Some secret \<Rightarrow> Some secret
      | None \<Rightarrow> if usable e \<and> trim_space (cred_ClientID e) = clientID then Some (cred_Secret e) else None)"
  by (simp add: secrets_of_def last_for_Cons split: option.splits)

lemma user_credentials_Cons:
  "fst (user_credentials cfg (user # users)) =
     (case fst (userCredential cfg user) of None \<Rightarrow> fst (user_credentials cfg users)
      | Some c \<Rightarrow> c # fst (user_credentials cfg users))"
  by (simp add: split_def Let_def)

lemma secrets_of_users: "secrets_of (fst (user_credentials cfg users)) clientID = listed_secret cfg users clientID"
proof (induction users)
  case Nil
  show ?case by (simp add: secrets_of_def)
next
  case (Cons user users)
  show ?case
  proof (cases "panel_secret cfg user")
    case None
    then have "fst (userCredential cfg user) = None" by (simp add: userCredential_secret)
    then have "fst (user_credentials cfg (user # users)) = fst (user_credentials cfg users)"
      by (simp only: user_credentials_Cons option.case)
    with None Cons.IH show ?thesis
      by (cases "listed_secret cfg users clientID") (simp_all only: listed_secret_Cons option.case if_cancel)
  next
    case (Some secret)
    show ?thesis
    proof (cases "clientIDForUser user = []")
      case True
      then have "fst (userCredential cfg user) = None" by (simp add: userCredential_secret)
      then have "fst (user_credentials cfg (user # users)) = fst (user_credentials cfg users)"
        by (simp only: user_credentials_Cons option.case)
      with True Cons.IH show ?thesis
        by (cases "listed_secret cfg users clientID") (auto simp only: listed_secret_Cons option.case trim_space_Nil split: if_split)
    next
      case False
      then have "fst (userCredential cfg user) =
          Some \<lparr>cred_ClientID = clientIDForUser user, cred_Secret = secret, cred_UserID = user_ID user\<rparr>"
        by (simp add: userCredential_secret Some)
      then have "fst (user_credentials cfg (user # users)) =
          \<lparr>cred_ClientID = clientIDForUser user, cred_Secret = secret, cred_UserID = user_ID user\<rparr> #
            fst (user_credentials cfg users)"
        by (simp only: user_credentials_Cons option.case)
      moreover have "usable \<lparr>cred_ClientID = clientIDForUser user, cred_Secret = secret, cred_UserID = user_ID user\<rparr> \<longleftrightarrow>
          trim_space (clientIDForUser user) \<noteq> []"
        by (simp add: usable_def panel_secret_long [OF Some])
      ultimately show ?thesis
        using Cons.IH Some unfolding listed_secret_Cons
        by (simp only: secrets_of_Cons ClientCredential.simps) (auto split: option.split)
    qed
  qed
qed

lemma syncUsers_lists:
  assumes "r_userStore r = Some store" and "kb_UsersEndpoint (r_cfg r) \<noteq> []"
    and "r_userStore (syncUsers E P r) = Some store'"
  shows "panel_lists E P r users \<Longrightarrow> LookupClientSecret store' =
      (\<lambda>clientID. case listed_secret (r_cfg r) users clientID of
         Some secret \<Rightarrow> Some secret | None \<Rightarrow> staticSecrets store clientID)"
    and "\<nexists>users. panel_lists E P r users \<Longrightarrow> LookupClientSecret store' = LookupClientSecret store"
proof -
  obtain res r1 where get: "getJSON E P (kb_UsersEndpoint (r_cfg r)) (r_usersETag r) r = (res, r1)"
    by fastforce
  note lookup = syncUsers_lookup [OF assms(1,2) get assms(3)]
  show "LookupClientSecret store' = (\<lambda>clientID. case listed_secret (r_cfg r) users clientID of
         Some secret \<Rightarrow> Some secret | None \<Rightarrow> staticSecrets store clientID)" if lists: "panel_lists E P r users"
  proof -
    obtain etag ans where ans: "res = Inr (etag, False, Some ans)" "users = pulled_users (Some ans)"
      using lists getJSON_lists [OF get] by blast
    have "LookupClientSecret store' =
        staticSecrets store ++ secrets_of (fst (user_credentials (r_cfg r) (pulled_users (Some ans))))"
      using lookup unfolding ans(1) by simp
    then show ?thesis unfolding ans(2) map_add_def secrets_of_users .
  qed
  show "LookupClientSecret store' = LookupClientSecret store" if none: "\<nexists>users. panel_lists E P r users"
  proof (cases res)
    case (Inl err)
    with lookup show ?thesis by simp
  next
    case (Inr ans)
    obtain etag nm users where ans: "ans = (etag, nm, users)" by (cases ans)
    have nm
    proof (rule ccontr)
      assume "\<not> nm"
      then have "res = Inr (etag, False, users)" using Inr ans by simp
      with getJSON_answer get obtain u where "users = Some u" by blast
      with none getJSON_lists [OF get] Inr ans \<open>\<not> nm\<close> show False by auto
    qed
    with Inr ans lookup show ?thesis by simp
  qed
qed

section \<open>The other reports\<close>

lemma reportAlive_preserves:
  "fixed_part (reportAlive E P active r) = fixed_part r"
  "r_userStore (reportAlive E P active r) = r_userStore r"
  "r_accessLogs (reportAlive E P active r) = r_accessLogs r"
  "reporter_inv E r \<Longrightarrow> reporter_inv E (reportAlive E P active r)"
  by (auto simp: reportAlive_def postJSON_preserves split: prod.splits option.splits)

lemma reportTraffic_preserves:
  "fixed_part (reportTraffic E P r) = fixed_part r"
  "r_userStore (reportTraffic E P r) = r_userStore r"
  "r_accessLogs (reportTraffic E P r) = r_accessLogs r"
  "reporter_inv E r \<Longrightarrow> reporter_inv E (reportTraffic E P r)"
  by (auto simp: reportTraffic_def postJSON_preserves split: prod.splits option.splits)

text \<open>
  When the panel has taken a batch: the payload has an encoding, the address is one, and the
  panel answers the signed request for it with a status from 200 to 299.
\<close>

definition panel_took :: "env \<Rightarrow> panel \<Rightarrow> reporter \<Rightarrow> kboardAccessLogItem list \<Rightarrow> bool" where
  "panel_took E P r items \<longleftrightarrow>
     (\<exists>body u resp.
        json_Marshal P (access_payload P r items) = Inr body \<and>
        url_Parse E (endpointURL (r_cfg r) (kb_AccessLogsEndpoint (r_cfg r))) = Inr u \<and>
        http_Do P (post_request P r (endpointURL (r_cfg r) (kb_AccessLogsEndpoint (r_cfg r))) u body) = Inr resp \<and>
        200 \<le> StatusCode resp \<and> StatusCode resp < 300)"

lemma postJSON_took:
  "fst (postJSON E P (kb_AccessLogsEndpoint (r_cfg r)) (access_payload P r items) (r\<lparr>r_accessLogs := a\<rparr>)) = None \<longleftrightarrow>
     panel_took E P r items"
  by (simp add: postJSON_def panel_took_def post_request_def Let_def split: sum.splits)

text \<open>The records that find room while a batch is with the panel.\<close>

definition wanted_records :: "kboardAccessLogItem list \<Rightarrow> kboardAccessLogItem list" where
  "wanted_records items = filter (\<lambda>item. trim_space (al_Domain item) \<noteq> []) items"

text \<open>
  One flush of the access log: nothing, a batch the panel took, or a batch that went back.
\<close>

lemma reportAccessLogs_cases:
  assumes "r_accessLogs r = Some b" and "kb_AccessLogsEndpoint (r_cfg r) \<noteq> []"
  obtains (empty) "Drain maxAccessLogBatchSize (Some b) = ([], Some b)" "log_items b = []"
      "reportAccessLogs E P r = r"
  | (posted) items b' b2 r' where "Drain maxAccessLogBatchSize (Some b) = (items, Some b')" "items \<noteq> []"
      "panel_took E P r items" "record_all (relay_records P) (Some b') = Some b2"
      "reportAccessLogs E P r = r'\<lparr>r_accessLogs := Some b2\<rparr>" "r_userStore r' = r_userStore r"
      "fixed_part r' = fixed_part r" "reporter_inv E (r\<lparr>r_accessLogs := Some b'\<rparr>) \<Longrightarrow> reporter_inv E r'"
  | (failed) items b' b2 r' err where "Drain maxAccessLogBatchSize (Some b) = (items, Some b')" "items \<noteq> []"
      "\<not> panel_took E P r items" "record_all (relay_records P) (Some b') = Some b2"
      "reportAccessLogs E P r = log_line (LogAccessFailed err) (r'\<lparr>r_accessLogs := Restore items (Some b2)\<rparr>)"
      "r_userStore r' = r_userStore r"
      "fixed_part r' = fixed_part r" "reporter_inv E (r\<lparr>r_accessLogs := Some b'\<rparr>) \<Longrightarrow> reporter_inv E r'"
proof -
  obtain items b' where drain: "Drain maxAccessLogBatchSize (Some b) = (items, Some b')"
    by (cases "Drain_here maxAccessLogBatchSize b") (simp add: Drain_Some)
  show ?thesis
  proof (cases "items = []")
    case True
    then have "b' = b" "log_items b = []"
      using drain by (auto simp: Drain_def maxAccessLogBatchSize_def split: if_splits)
    moreover from this have "reportAccessLogs E P r = r" using assms drain True by (simp add: reportAccessLogs_def Let_def)
    ultimately show ?thesis using drain True by (intro empty) auto
  next
    case False
    obtain b2 where b2: "record_all (relay_records P) (Some b') = Some b2" by (simp add: record_all_Some)
    obtain res r' where post:
      "postJSON E P (kb_AccessLogsEndpoint (r_cfg r)) (access_payload P r items) (r\<lparr>r_accessLogs := Some b'\<rparr>) = (res, r')"
      by (cases "postJSON E P (kb_AccessLogsEndpoint (r_cfg r)) (access_payload P r items) (r\<lparr>r_accessLogs := Some b'\<rparr>)") auto
    note kept = postJSON_preserves [OF post]
    have took: "res = None \<longleftrightarrow> panel_took E P r items"
      using postJSON_took [of E P r items "Some b'"] post by simp
    have logs: "r_accessLogs r' = Some b'" using kept(3) by simp
    have same: "access_payload P (r\<lparr>r_accessLogs := Some b'\<rparr>) items = access_payload P r items"
      by (simp add: access_payload_def)
    show ?thesis
    proof (cases res)
      case None
      then have "reportAccessLogs E P r = r'\<lparr>r_accessLogs := Some b2\<rparr>"
        using assms drain False post logs b2 by (simp add: reportAccessLogs_def Let_def same relays_record_def)
      with drain False kept b2 took None show ?thesis by (intro posted [of items b' b2 r']) auto
    next
      case (Some err)
      then have "reportAccessLogs E P r =
          log_line (LogAccessFailed err) (r'\<lparr>r_accessLogs := Restore items (Some b2)\<rparr>)"
        using assms drain False post logs b2 by (simp add: reportAccessLogs_def Let_def same relays_record_def)
      with drain False kept b2 took Some show ?thesis by (intro failed [of items b' b2 err r']) auto
    qed
  qed
qed

lemma reportAccessLogs_off:
  "r_accessLogs r = None \<or> kb_AccessLogsEndpoint (r_cfg r) = [] \<Longrightarrow> reportAccessLogs E P r = r"
  by (auto simp: reportAccessLogs_def)

lemma Drain_bounded:
  "Drain n (Some b) = (items, Some b') \<Longrightarrow> length (log_items b') \<le> length (log_items b)"
  by (auto simp: Drain_def split: if_splits)

lemma reporter_inv_shrunk_log:
  "reporter_inv E r \<Longrightarrow> r_accessLogs r = Some b \<Longrightarrow> length (log_items b') \<le> length (log_items b) \<Longrightarrow>
     reporter_inv E (r\<lparr>r_accessLogs := Some b'\<rparr>)"
  by (auto simp: reporter_inv_def)

lemma reporter_inv_log:
  "reporter_inv E r \<Longrightarrow> length (log_items b) \<le> maxAccessLogQueueSize \<Longrightarrow> reporter_inv E (r\<lparr>r_accessLogs := Some b\<rparr>)"
  by (simp add: reporter_inv_def)

lemma record_all_bounded:
  "record_all items (Some b) = Some b' \<Longrightarrow> length (log_items b) \<le> maxAccessLogQueueSize \<Longrightarrow>
     length (log_items b') \<le> maxAccessLogQueueSize"
  using access_queue.bounded_push_all [of b items] by (simp add: record_all_Some access_queue.bounded_def)

lemma Restore_bounded:
  "Restore items (Some b) = Some b' \<Longrightarrow> length (log_items b) \<le> maxAccessLogQueueSize \<Longrightarrow>
     length (log_items b') \<le> maxAccessLogQueueSize"
  using access_queue.bounded_put_back [of b items] by (simp add: Restore_Some access_queue.bounded_def)

lemma reporter_inv_relays_record: "reporter_inv E r \<Longrightarrow> reporter_inv E (relays_record items r)"
proof -
  assume inv: "reporter_inv E r"
  show ?thesis
  proof (cases "r_accessLogs r")
    case None
    with inv show ?thesis by (simp add: relays_record_def reporter_inv_def)
  next
    case (Some b)
    then obtain b' where b': "record_all items (Some b) = Some b'" by (simp add: record_all_Some)
    have "length (log_items b) \<le> maxAccessLogQueueSize" using inv Some by (simp add: reporter_inv_def)
    from record_all_bounded [OF b' this] show ?thesis
      using reporter_inv_log [OF inv] Some b' by (simp add: relays_record_def)
  qed
qed

lemma fixed_part_relays_record [simp]: "fixed_part (relays_record items r) = fixed_part r"
  by (simp add: relays_record_def)

lemma reportAccessLogs_preserves:
  "fixed_part (reportAccessLogs E P r) = fixed_part r"
  "r_userStore (reportAccessLogs E P r) = r_userStore r"
  "reporter_inv E r \<Longrightarrow> reporter_inv E (reportAccessLogs E P r)"
proof -
  have "fixed_part (reportAccessLogs E P r) = fixed_part r \<and>
    r_userStore (reportAccessLogs E P r) = r_userStore r \<and>
    (reporter_inv E r \<longrightarrow> reporter_inv E (reportAccessLogs E P r))"
  proof (cases "r_accessLogs r = None \<or> kb_AccessLogsEndpoint (r_cfg r) = []")
    case True
    then show ?thesis by (simp add: reportAccessLogs_off)
  next
    case False
    then obtain b where b: "r_accessLogs r = Some b" "kb_AccessLogsEndpoint (r_cfg r) \<noteq> []" by auto
    then show ?thesis
    proof (cases rule: reportAccessLogs_cases [where E = E and P = P])
      case empty
      then show ?thesis by simp
    next
      case (posted items b' b2 r')
      have "reporter_inv E r' \<and> length (log_items b2) \<le> maxAccessLogQueueSize" if "reporter_inv E r"
        using that posted b(1) Drain_bounded [OF posted(1)] record_all_bounded [OF posted(4)] reporter_inv_shrunk_log
        by (fastforce simp: reporter_inv_def)
      with posted show ?thesis by (simp add: reporter_inv_log)
    next
      case (failed items b' b2 r' err)
      obtain b3 where b3: "Restore items (Some b2) = Some b3" by (simp add: Restore_Some)
      have "reporter_inv E r' \<and> length (log_items b3) \<le> maxAccessLogQueueSize" if "reporter_inv E r"
        using that failed b(1) Drain_bounded [OF failed(1)] record_all_bounded [OF failed(4)] Restore_bounded [OF b3]
          reporter_inv_shrunk_log by (fastforce simp: reporter_inv_def)
      with failed b3 show ?thesis by (simp add: reporter_inv_log)
    qed
  qed
  then show "fixed_part (reportAccessLogs E P r) = fixed_part r"
    "r_userStore (reportAccessLogs E P r) = r_userStore r"
    "reporter_inv E r \<Longrightarrow> reporter_inv E (reportAccessLogs E P r)" by auto
qed

section \<open>The loop\<close>

lemma report_preserves:
  "fixed_part (report E P active r) = fixed_part r"
  "reporter_inv E r \<Longrightarrow> reporter_inv E (report E P active r)"
  by (simp_all add: report_def reportAccessLogs_preserves reportTraffic_preserves
      reportAlive_preserves syncUsers_fixed syncUsers_inv)

lemma run_loop_preserves:
  "fixed_part (fst (run_loop E events r)) = fixed_part r"
  "reporter_inv E r \<Longrightarrow> reporter_inv E (fst (run_loop E events r))"
  by (induction E events r rule: run_loop.induct)
    (simp_all add: report_preserves reportAccessLogs_preserves reporter_inv_relays_record)

lemma run_loop_returns: "snd (run_loop E events r) \<longleftrightarrow> (\<exists>P. Done P \<in> set events)"
  by (induction E events r rule: run_loop.induct) auto

lemma run_reporter_preserves:
  "fixed_part (fst (run_reporter E P active events r)) = fixed_part r"
  "reporter_inv E r \<Longrightarrow> reporter_inv E (fst (run_reporter E P active events r))"
  by (simp_all add: run_reporter_def run_loop_preserves report_preserves)

lemma newKboardReporter_inv:
  assumes "\<forall>s \<in> set_option store. store_inv s \<and> strong_store s"
    and "\<forall>b \<in> set_option logs. length (log_items b) \<le> maxAccessLogQueueSize"
  shows "reporter_inv E (newKboardReporter cfg node host rt arch ver store logs)"
  using assms by (simp add: reporter_inv_def newKboardReporter_def all_signed_def)

section \<open>Refinement of the log relation\<close>

text \<open>
  A flush is a run of \<open>log_step\<close>: drained, what the relays record, and posted or restored.
\<close>

lemma reportAccessLogs_refines:
  assumes "r_accessLogs r = Some (buffer s)" and "in_flight s = []"
    and "kb_AccessLogsEndpoint (r_cfg r) \<noteq> []"
    and "batch = take 5000 (log_items (buffer s))"
    and "free = maxAccessLogQueueSize - length (drop 5000 (log_items (buffer s)))"
  shows "\<exists>t. log_step\<^sup>*\<^sup>* s t \<and> r_accessLogs (reportAccessLogs E P r) = Some (buffer t) \<and> in_flight t = [] \<and>
    acknowledged t = acknowledged s @ (if panel_took E P r batch then batch else []) \<and>
    accepted t = accepted s @ (if batch = [] then [] else take free (wanted_records (relay_records P)))"
  using assms(1,3)
proof (cases rule: reportAccessLogs_cases [where E = E and P = P])
  case empty
  with assms show ?thesis by auto
next
  case (posted items b' b2 r')
  note split = Drain_split [OF posted(1)]
  have items: "items = batch" "log_items b' = drop 5000 (log_items (buffer s))"
    using split(2,3) assms(4) by (simp_all add: maxAccessLogBatchSize_def)
  obtain s1 where s1: "log_step s s1" "buffer s1 = b'" "in_flight s1 = items" "acknowledged s1 = acknowledged s"
      "accepted s1 = accepted s"
    using drained [OF assms(2) posted(1,2)] by force
  obtain s2 where s2: "log_step\<^sup>*\<^sup>* s1 s2" "buffer s2 = b2" "in_flight s2 = items" "acknowledged s2 = acknowledged s"
      "accepted s2 = accepted s @ take free (wanted_records (relay_records P))"
    using log_steps_record_all [of s1 "relay_records P"] s1 posted(4) items(2) assms(5)
    by (auto simp: wanted_records_def)
  obtain t where t: "log_step s2 t" "buffer t = b2" "in_flight t = []" "acknowledged t = acknowledged s @ items"
      "accepted t = accepted s2"
    using log_step.posted [of s2] s2 posted(2) by force
  have "log_step\<^sup>*\<^sup>* s t" using s1(1) s2(1) t(1) by (meson converse_rtranclp_into_rtranclp rtranclp.rtrancl_into_rtrancl)
  with posted t s2 items show ?thesis by (intro exI [of _ t]) simp
next
  case (failed items b' b2 r' err)
  note split = Drain_split [OF failed(1)]
  have items: "items = batch" "log_items b' = drop 5000 (log_items (buffer s))"
    using split(2,3) assms(4) by (simp_all add: maxAccessLogBatchSize_def)
  obtain s1 where s1: "log_step s s1" "buffer s1 = b'" "in_flight s1 = items" "acknowledged s1 = acknowledged s"
      "accepted s1 = accepted s"
    using drained [OF assms(2) failed(1,2)] by force
  obtain s2 where s2: "log_step\<^sup>*\<^sup>* s1 s2" "buffer s2 = b2" "in_flight s2 = items" "acknowledged s2 = acknowledged s"
      "accepted s2 = accepted s @ take free (wanted_records (relay_records P))"
    using log_steps_record_all [of s1 "relay_records P"] s1 failed(4) items(2) assms(5)
    by (auto simp: wanted_records_def)
  obtain t where t: "log_step s2 t" "buffer t = Restore_here items b2" "in_flight t = []"
      "acknowledged t = acknowledged s" "accepted t = accepted s2"
    using log_step.failed [of s2 "Restore_here items b2"] s2 failed(2) by (force simp: Restore_Some)
  have "log_step\<^sup>*\<^sup>* s t" using s1(1) s2(1) t(1) by (meson converse_rtranclp_into_rtranclp rtranclp.rtrancl_into_rtrancl)
  with failed t s2 items show ?thesis by (intro exI [of _ t]) (simp add: Restore_Some)
qed

text \<open>What the buffer holds after a flush.\<close>

lemma reportAccessLogs_buffer:
  assumes "r_accessLogs r = Some b" and "kb_AccessLogsEndpoint (r_cfg r) \<noteq> []"
    and "length (log_items b) \<le> maxAccessLogQueueSize"
    and "kept = drop 5000 (log_items b)" and "new = wanted_records (relay_records P)"
  shows "r_accessLogs (reportAccessLogs E P r) = Some (b\<lparr>log_items :=
    (if log_items b = [] then []
     else if panel_took E P r (take 5000 (log_items b)) then take maxAccessLogQueueSize (kept @ new)
     else take maxAccessLogQueueSize (log_items b @ new))\<rparr>)"
  using assms(1,2)
proof (cases rule: reportAccessLogs_cases [where E = E and P = P])
  case empty
  then show ?thesis using assms by simp
next
  case (posted items b' b2 r')
  note split = Drain_split [OF posted(1)]
  have items: "items = take 5000 (log_items b)" "log_items b' = kept" "log_items b \<noteq> []"
    using split(2,3) assms(4) posted(2) by (auto simp: maxAccessLogBatchSize_def)
  have "length kept \<le> maxAccessLogQueueSize" using assms(3,4) by simp
  then have "log_items b2 = take maxAccessLogQueueSize (kept @ new)"
    using posted(4) access_queue.push_all_elems [of "relay_records P" b'] items assms(5)
    by (simp add: record_all_Some wanted_records_def)
  with posted items show ?thesis by simp
next
  case (failed items b' b2 r' err)
  note split = Drain_split [OF failed(1)]
  have items: "items = take 5000 (log_items b)" "log_items b' = kept" "log_items b \<noteq> []"
    using split(2,3) assms(4) failed(2) by (auto simp: maxAccessLogBatchSize_def)
  have "length kept \<le> maxAccessLogQueueSize" using assms(3,4) by simp
  then have "log_items b2 = take maxAccessLogQueueSize (kept @ new)"
    using failed(4) access_queue.push_all_elems [of "relay_records P" b'] items assms(5)
    by (simp add: record_all_Some wanted_records_def)
  then have "log_items (Restore_here items b2) = take maxAccessLogQueueSize (items @ take maxAccessLogQueueSize (kept @ new))"
    using Restore_here_items [of b2 items] by simp
  also have "\<dots> = take maxAccessLogQueueSize (items @ kept @ new)"
    by (simp add: take_append min_def)
  also have "\<dots> = take maxAccessLogQueueSize (log_items b @ new)"
    using items(1) assms(4) append_take_drop_id [of 5000 "log_items b"] by (metis append.assoc)
  finally show ?thesis using failed items by (simp add: Restore_Some)
qed

section \<open>Small functions\<close>

lemma safeBatchNodeID_shape:
  "safeBatchNodeID n \<noteq> [] \<and> (\<forall>c \<in> set (safeBatchNodeID n). batch_char c)"
  by (auto simp: safeBatchNodeID_def Let_def batch_char_def)

lemma onlineCount_eq: "onlineCount a = max 0 (min a maxInt)"
  by (simp add: onlineCount_def maxInt_def)

lemma endpointURL_relative:
  assumes "k = KboardConfig_applyDefaults k0" and "e = normalizeEndpoint e0" and "e \<noteq> []"
  shows "endpointURL k e = e \<or> (endpointURL k e = kb_PublicURL k @ e \<and> hd e = CHR ''/'' \<and>
    (kb_PublicURL k = [] \<or> last (kb_PublicURL k) \<noteq> CHR ''/''))"
proof -
  have "trim_right_slash (kb_PublicURL k) = kb_PublicURL k"
    by (simp add: assms(1) KboardConfig_applyDefaults_def)
  moreover have "kb_PublicURL k = [] \<or> last (kb_PublicURL k) \<noteq> CHR ''/''"
    using trim_right_slash_last by (auto simp: assms(1) KboardConfig_applyDefaults_def)
  moreover have "prefix ''http://'' e \<or> prefix ''https://'' e \<or> hd e = CHR ''/''"
    using assms(2,3) by (auto simp: normalizeEndpoint_def Let_def prefix_def split: if_splits)
  ultimately show ?thesis by (auto simp: endpointURL_def)
qed

end
