(* ===== verification/Node_Service.thy ===== *)
theory Node_Service
  imports Server_Relay_Facts Dialer Kboard_Facts
begin

text \<open>
  \<open>internal/node/service.go\<close>, the data and the sequential parts: construction of the service,
  its status, the admin endpoints, and what is done with one accepted connection.  The accept
  loops and \<open>Run\<close>, where goroutines interleave, are in \<open>Accept_Loop\<close> and \<open>Run_Service\<close>.

  All relays hold a pointer to the same credential store and the same access log; the model
  keeps both in the service.
\<close>

section \<open>The service\<close>

record Service =
  sv_cfg :: Config
  sv_metrics :: Metrics
  sv_dialers :: "string \<Rightarrow> UpstreamDialer option"
  sv_relays :: "string \<Rightarrow> serverRelay option"
  sv_store :: dynamicClientStore
  sv_access :: "accessLogBuffer option"
  sv_adminAddr :: string
  sv_inboundAddrs :: "string \<Rightarrow> string option"
  sv_startedListeners :: nat

record Status =
  st_NodeID :: string
  st_Admin :: string
  st_Inbounds :: "string \<Rightarrow> string option"
  st_Upstreams :: "string list"
  st_Metrics :: MetricsSnapshot

fun new_dialers ::
  "env \<Rightarrow> UpstreamConfig list \<Rightarrow> (string \<Rightarrow> UpstreamDialer option) \<Rightarrow>
   go_error + (string \<Rightarrow> UpstreamDialer option)"
where
  "new_dialers E [] dialers = Inr dialers"
| "new_dialers E (upstream # rest) dialers =
     (case NewUpstreamDialer E upstream of
        Inl err \<Rightarrow> Inl (WrapQ ''upstream'' (u_Name upstream) err)
      | Inr dialer \<Rightarrow> new_dialers E rest (dialers(u_Name upstream \<mapsto> dialer)))"

fun new_relays ::
  "env \<Rightarrow> InboundConfig list \<Rightarrow> (string \<Rightarrow> serverRelay option) \<Rightarrow> dynamicClientStore \<Rightarrow>
   go_error + (string \<Rightarrow> serverRelay option) \<times> dynamicClientStore"
where
  "new_relays E [] relays userStore = Inr (relays, userStore)"
| "new_relays E (inbound # rest) relays userStore =
     (if i_Mode inbound \<noteq> InboundModeKLESSServer then new_relays E rest relays userStore
      else (case requireKLESSServerRelay E inbound of
              Some err \<Rightarrow> Inl err
            | None \<Rightarrow>
                (case newServerRelay (i_Name inbound) (i_KLESS inbound) (Some userStore) of
                   Inl err \<Rightarrow> Inl (WrapQ ''inbound'' (i_Name inbound) err)
                 | Inr (relay, userStore') \<Rightarrow>
                     new_relays E rest (relays(i_Name inbound \<mapsto> relay)) userStore')))"

definition New :: "env \<Rightarrow> int \<Rightarrow> Config \<Rightarrow> go_error + Service" where
  "New E now cfg0 =
     (case Config_Validate E cfg0 of
        Inl err \<Rightarrow> Inl err
      | Inr cfg \<Rightarrow>
          (case new_dialers E (c_Upstreams cfg) Map.empty of
             Inl err \<Rightarrow> Inl err
           | Inr dialers \<Rightarrow>
               (case new_relays E (c_Inbounds cfg) Map.empty newDynamicClientStore of
                  Inl err \<Rightarrow> Inl err
                | Inr (relays, userStore) \<Rightarrow>
                    Inr \<lparr>sv_cfg = cfg, sv_metrics = NewMetrics now, sv_dialers = dialers,
                         sv_relays = relays, sv_store = userStore, sv_access = newAccessLogBuffer,
                         sv_adminAddr = [], sv_inboundAddrs = Map.empty, sv_startedListeners = 0\<rparr>)))"

section \<open>Status and addresses\<close>

definition Service_Metrics :: "int \<Rightarrow> Service \<Rightarrow> MetricsSnapshot" where
  "Service_Metrics now s = Snapshot now (sv_metrics s)"

definition Service_Status :: "int \<Rightarrow> Service \<Rightarrow> Status" where
  "Service_Status now s =
     \<lparr>st_NodeID = c_NodeID (sv_cfg s), st_Admin = sv_adminAddr s, st_Inbounds = sv_inboundAddrs s,
      st_Upstreams = map u_Name (c_Upstreams (sv_cfg s)), st_Metrics = Snapshot now (sv_metrics s)\<rparr>"

definition InboundAddress :: "Service \<Rightarrow> string \<Rightarrow> string" where
  "InboundAddress s name = (case sv_inboundAddrs s name of None \<Rightarrow> [] | Some a \<Rightarrow> a)"

definition AdminAddress :: "Service \<Rightarrow> string" where
  "AdminAddress s = sv_adminAddr s"

definition setInboundAddress :: "string \<Rightarrow> string \<Rightarrow> Service \<Rightarrow> Service" where
  "setInboundAddress name address s =
     s\<lparr>sv_inboundAddrs := (sv_inboundAddrs s)(name \<mapsto> address),
       sv_startedListeners := sv_startedListeners s + 1\<rparr>"

definition setAdminAddress :: "string \<Rightarrow> Service \<Rightarrow> Service" where
  "setAdminAddress address s = s\<lparr>sv_adminAddr := address\<rparr>"

section \<open>The admin endpoints\<close>

datatype admin_body =
    StatusBody string
  | MetricsBody MetricsSnapshot
  | ServiceBody Status

definition handleHealth :: "int \<times> admin_body" where
  "handleHealth = (200, StatusBody ''ok'')"

definition handleReady :: "Service \<Rightarrow> int \<times> admin_body" where
  "handleReady s =
     (if sv_startedListeners s \<noteq> length (c_Inbounds (sv_cfg s))
      then (503, StatusBody ''starting'') else (200, StatusBody ''ready''))"

definition handleMetrics :: "int \<Rightarrow> Service \<Rightarrow> int \<times> admin_body" where
  "handleMetrics now s = (200, MetricsBody (Snapshot now (sv_metrics s)))"

definition handleStatus :: "int \<Rightarrow> Service \<Rightarrow> int \<times> admin_body" where
  "handleStatus now s = (200, ServiceBody (Service_Status now s))"

text \<open>The routes \<open>startAdmin\<close> registers; any other path is not found (\<open>None\<close>).\<close>

definition admin_mux :: "int \<Rightarrow> Service \<Rightarrow> string \<Rightarrow> (int \<times> admin_body) option" where
  "admin_mux now s path =
     (if path = ''/healthz'' then Some handleHealth
      else if path = ''/readyz'' then Some (handleReady s)
      else if path = ''/metrics'' then Some (handleMetrics now s)
      else if path = ''/status'' then Some (handleStatus now s)
      else None)"

text \<open>
  \<open>startAdmin\<close>: no server (\<open>None\<close>) without an address; the listener is identified by its
  address.
\<close>

definition startAdmin ::
  "(string \<Rightarrow> go_error + string) \<Rightarrow> Service \<Rightarrow> go_error + (string option \<times> Service)"
where
  "startAdmin Listen s =
     (if ad_Address (c_Admin (sv_cfg s)) = [] then Inr (None, s)
      else (case Listen (ad_Address (c_Admin (sv_cfg s))) of
              Inl err \<Rightarrow> Inl (Wrap ''listen admin'' err)
            | Inr addr \<Rightarrow> Inr (Some addr, setAdminAddress addr s)))"

section \<open>One connection\<close>

text \<open>
  \<open>handleConnection\<close> on the world of the connection.  \<open>None\<close> is the panic of a nil dialer.
  The counters at its begin and end are those of \<open>beginConnection\<close> and \<open>endConnection\<close>.
\<close>

definition handle_upstream ::
  "env \<Rightarrow> net_lib \<Rightarrow> conn_env \<Rightarrow> InboundConfig \<Rightarrow> UpstreamDialer \<Rightarrow> relay_world \<Rightarrow> relay_world"
where
  "handle_upstream E N c inbound dialer w =
     (case fst (Dial E N dialer) of
        Inl err \<Rightarrow>
          emit [Logged (LogUpstream (i_Name inbound) (i_Upstream inbound) (dial_error err))]
            (tally (if Stage err = StageHandshake then addHandshakeError else addTransportError) w)
      | Inr secure \<Rightarrow>
          (let w = emit [Opened UpstreamConn] w;
               (res, m) = pipe_run (copies c) (w_metrics w);
               w = emit [Closed UpstreamConn, Closed LocalConn] (w\<lparr>w_metrics := m\<rparr>);
               w = (case res of
                      None \<Rightarrow> w
                    | Some err \<Rightarrow>
                        emit [Logged (LogProxy (i_Name inbound) err)] (tally addProxyError w))
           in emit [Closed UpstreamConn] w))"

definition handleConnection ::
  "env \<Rightarrow> relay_lib \<Rightarrow> net_lib \<Rightarrow> conn_env \<Rightarrow> Service \<Rightarrow> InboundConfig \<Rightarrow> relay_world \<Rightarrow>
   relay_world option"
where
  "handleConnection E L N c s inbound w0 =
     (let w = emit [Opened LocalConn] (tally beginConnection w0);
          handled =
            (if i_Mode inbound = InboundModeKLESSServer then
               (case sv_relays s (i_Name inbound) of
                  None \<Rightarrow>
                    Some (emit [Logged (LogNoRelay (i_Name inbound))] (tally addProxyError w))
                | Some relay \<Rightarrow> Some (Handle E L c relay w))
             else
               (case sv_dialers s (i_Upstream inbound) of
                  None \<Rightarrow> None
                | Some dialer \<Rightarrow> Some (handle_upstream E N c inbound dialer w)))
      in map_option (\<lambda>w. tally endConnection (emit [Closed LocalConn] w)) handled)"

section \<open>Construction succeeds exactly when validation does\<close>

definition dialer_map :: "UpstreamConfig list \<Rightarrow> string \<Rightarrow> UpstreamDialer option" where
  "dialer_map us = map_of (rev (map (\<lambda>u. (u_Name u, \<lparr>d_cfg = u\<rparr>)) us))"

lemma new_dialers_ok:
  assumes "\<forall>u \<in> set us. NewUpstreamDialer E u = Inr \<lparr>d_cfg = u\<rparr>"
  shows "new_dialers E us dialers = Inr (dialers ++ dialer_map us)"
  using assms
proof (induction us arbitrary: dialers)
  case (Cons u us)
  have "dialers ++ dialer_map (u # us) = dialers(u_Name u \<mapsto> \<lparr>d_cfg = u\<rparr>) ++ dialer_map us"
    by (auto simp: dialer_map_def map_add_def fun_eq_iff split: option.splits)
  with Cons show ?case by simp
qed (simp add: dialer_map_def)

lemma dialer_map_lookup:
  assumes "distinct (map u_Name us)"
  shows "u \<in> set us \<Longrightarrow> dialer_map us (u_Name u) = Some \<lparr>d_cfg = u\<rparr>"
proof -
  have dist: "distinct (map fst (rev (map (\<lambda>u. (u_Name u, \<lparr>d_cfg = u\<rparr>)) us)))"
    using assms by (simp add: comp_def rev_map [symmetric])
  show "u \<in> set us \<Longrightarrow> dialer_map us (u_Name u) = Some \<lparr>d_cfg = u\<rparr>"
    unfolding dialer_map_def by (rule map_of_is_SomeI [OF dist]) auto
qed

definition relay_inbound :: "InboundConfig \<Rightarrow> bool" where
  "relay_inbound i \<longleftrightarrow> i_Mode i = InboundModeKLESSServer"

definition relay_ready :: "env \<Rightarrow> InboundConfig \<Rightarrow> bool" where
  "relay_ready E i \<longleftrightarrow> relay_inbound i \<longrightarrow>
     s_ServerSigningPrivate (i_KLESS i) \<noteq> [] \<and> (\<exists>allow. valid_ServerKLESSConfig E allow (i_KLESS i))"

text \<open>The fixed credentials of the store: those of every relay in order, a later one winning.\<close>

fun all_static :: "InboundConfig list \<Rightarrow> dynamicClientStore \<Rightarrow> dynamicClientStore" where
  "all_static [] s = s"
| "all_static (i # rest) s =
     (if relay_inbound i then
        (case staticClientCredentials (i_KLESS i) of
           Inl _ \<Rightarrow> all_static rest s
         | Inr creds \<Rightarrow> all_static rest (AddStatic creds s))
      else all_static rest s)"

lemma all_static_inv: "store_inv s \<Longrightarrow> store_inv (all_static ins s)"
  by (induction ins s rule: all_static.induct) (auto split: sum.splits)

lemma all_static_dynamic [simp]: "dynamicSecrets (all_static ins s) = dynamicSecrets s"
  by (induction ins s rule: all_static.induct) (auto simp: store_op_eqs split: sum.splits)

lemma new_relays_ok:
  assumes "\<forall>i \<in> set ins. relay_ready E i"
  shows "\<exists>rs. new_relays E ins relays s = Inr (rs, all_static ins s) \<and>
    (\<forall>name. (\<forall>i \<in> set ins. relay_inbound i \<longrightarrow> i_Name i \<noteq> name) \<longrightarrow> rs name = relays name) \<and>
    (distinct (map i_Name ins) \<longrightarrow>
       (\<forall>i \<in> set ins. relay_inbound i \<longrightarrow>
          (\<exists>r. rs (i_Name i) = Some r \<and> sr_cfg r = i_KLESS i \<and> sr_listenID r = i_Name i \<and>
               length (sr_signing r) = 64)))"
  using assms
proof (induction ins arbitrary: relays s)
  case (Cons i ins)
  show ?case
  proof (cases "relay_inbound i")
    case False
    with Cons.IH [of relays s] Cons.prems show ?thesis by (auto simp: relay_inbound_def)
  next
    case True
    then obtain allow where valid: "valid_ServerKLESSConfig E allow (i_KLESS i)"
        and key: "s_ServerSigningPrivate (i_KLESS i) \<noteq> []"
      using Cons.prems by (auto simp: relay_ready_def)
    obtain r s' where new: "newServerRelay (i_Name i) (i_KLESS i) (Some s) = Inr (r, s')"
      using newServerRelay_ok [OF valid, of "i_Name i" "Some s"] by (auto simp: is_ok_iff)
    note facts = newServerRelay_cases [OF new]
    then obtain creds where creds: "staticClientCredentials (i_KLESS i) = Inr creds" "s' = AddStatic creds s"
      by blast
    have req: "requireKLESSServerRelay E i = None"
      using True key by (simp add: requireKLESSServerRelay_def relay_inbound_def)
    have step: "new_relays E (i # ins) relays s = new_relays E ins (relays(i_Name i \<mapsto> r)) s'"
      using True by (simp add: relay_inbound_def req new)
    have ready: "\<forall>j \<in> set ins. relay_ready E j" using Cons.prems by simp
    obtain rs where rs: "new_relays E ins (relays(i_Name i \<mapsto> r)) s' = Inr (rs, all_static ins s')"
      "\<forall>name. (\<forall>j \<in> set ins. relay_inbound j \<longrightarrow> i_Name j \<noteq> name) \<longrightarrow> rs name = (relays(i_Name i \<mapsto> r)) name"
      "distinct (map i_Name ins) \<longrightarrow>
       (\<forall>j \<in> set ins. relay_inbound j \<longrightarrow>
          (\<exists>r. rs (i_Name j) = Some r \<and> sr_cfg r = i_KLESS j \<and> sr_listenID r = i_Name j \<and>
               length (sr_signing r) = 64))"
      using Cons.IH [OF ready, of "relays(i_Name i \<mapsto> r)" s'] by blast
    have own: "rs (i_Name i) = Some r" if "i_Name i \<notin> i_Name ` set ins"
      using rs(2) that by (metis fun_upd_same image_eqI)
    have others: "\<forall>name. (\<forall>j \<in> set (i # ins). relay_inbound j \<longrightarrow> i_Name j \<noteq> name) \<longrightarrow> rs name = relays name"
      using rs(2) True by auto
    show ?thesis
      unfolding step using rs(1,3) others own creds True facts by auto
  qed
qed simp

lemma valid_relay_ready:
  assumes "valid_InboundConfig E ups allow i" shows "relay_ready E i"
proof -
  have "s_ServerSigningPrivate (i_KLESS i) \<noteq> []" if "good_private (s_ServerSigningPrivate (i_KLESS i))"
  proof
    assume "s_ServerSigningPrivate (i_KLESS i) = []"
    moreover have "decodeKey [] = Inr []" using decodeKey_encode [of RawStdEncoding "[]"]
      by (simp add: decodeKey_def drop_blanks_def)
    ultimately show False using that by (simp add: good_private_def)
  qed
  moreover have "InboundModeTCP \<noteq> InboundModeKLESSServer" by (simp add: inbound_mode_defs)
  ultimately show ?thesis
    using assms
    by (auto simp: relay_ready_def relay_inbound_def valid_InboundConfig_def valid_ServerKLESSConfig_def)
qed

text \<open>What a constructed service guarantees to the connections it serves.\<close>

definition service_ok :: "env \<Rightarrow> Service \<Rightarrow> bool" where
  "service_ok E s \<longleftrightarrow>
     valid_Config E (sv_cfg s) \<and> store_inv (sv_store s) \<and>
     (\<forall>i \<in> set (c_Inbounds (sv_cfg s)).
        if relay_inbound i then
          (\<exists>r. sv_relays s (i_Name i) = Some r \<and> sr_cfg r = i_KLESS i \<and> length (sr_signing r) = 64)
        else
          (\<exists>u \<in> set (c_Upstreams (sv_cfg s)).
             u_Name u = i_Upstream i \<and> sv_dialers s (i_Upstream i) = Some \<lparr>d_cfg = u\<rparr>))"

lemma New_valid:
  assumes "Config_Validate E c0 = Inr cfg"
  shows "\<exists>s. New E now c0 = Inr s \<and> sv_cfg s = cfg \<and> service_ok E s \<and>
    sv_store s = all_static (c_Inbounds cfg) newDynamicClientStore \<and>
    sv_metrics s = NewMetrics now \<and> sv_startedListeners s = 0 \<and> sv_inboundAddrs s = Map.empty \<and>
    sv_access s = newAccessLogBuffer"
proof -
  have valid: "valid_Config E cfg" using assms unfolding Config_Validate_iff by blast
  have ds: "new_dialers E (c_Upstreams cfg) Map.empty = Inr (dialer_map (c_Upstreams cfg))"
    using new_dialers_ok [of "c_Upstreams cfg" E Map.empty] NewUpstreamDialer_validated [OF assms]
    by simp
  have ready: "\<forall>i \<in> set (c_Inbounds cfg). relay_ready E i"
    using valid valid_relay_ready unfolding valid_Config_def by blast
  obtain rs where rs: "new_relays E (c_Inbounds cfg) Map.empty newDynamicClientStore =
      Inr (rs, all_static (c_Inbounds cfg) newDynamicClientStore)"
    "\<forall>i \<in> set (c_Inbounds cfg). relay_inbound i \<longrightarrow>
       (\<exists>r. rs (i_Name i) = Some r \<and> sr_cfg r = i_KLESS i \<and> length (sr_signing r) = 64)"
    using new_relays_ok [OF ready, of Map.empty newDynamicClientStore] valid
    unfolding valid_Config_def by blast
  have tcp: "\<exists>u \<in> set (c_Upstreams cfg). u_Name u = i_Upstream i \<and>
      dialer_map (c_Upstreams cfg) (i_Upstream i) = Some \<lparr>d_cfg = u\<rparr>"
    if "i \<in> set (c_Inbounds cfg)" "\<not> relay_inbound i" for i
  proof -
    have "i_Upstream i \<in> u_Name ` set (c_Upstreams cfg)" and dist: "distinct (map u_Name (c_Upstreams cfg))"
      using valid that by (auto simp: valid_Config_def valid_InboundConfig_def relay_inbound_def)
    then show ?thesis using dialer_map_lookup [OF dist] by force
  qed
  show ?thesis
    using valid ds rs tcp by (simp add: New_def assms service_ok_def all_static_inv)
qed

lemma New_iff: "is_ok (New E now c0) \<longleftrightarrow> is_ok (Config_Validate E c0)"
proof (cases "Config_Validate E c0")
  case (Inl e)
  then show ?thesis by (simp add: New_def)
next
  case (Inr cfg)
  from New_valid [OF this, of now] Inr show ?thesis by (auto simp: is_ok_iff)
qed

section \<open>One connection\<close>

lemma handle_upstream_moves:
  "moves (Suc 0) (w_metrics w) (w_metrics (handle_upstream E N c i d w))"
  by (auto simp: handle_upstream_def Let_def split: sum.splits prod.splits option.splits
      dest!: moves_pipe_run intro: moves_weaken moves_then_error)

lemma handle_upstream_still_open:
  "UpstreamConn \<notin> still_open w \<Longrightarrow>
     still_open (handle_upstream E N c i d w) - {LocalConn} = still_open w - {LocalConn}"
  by (auto simp: handle_upstream_def Let_def split: sum.splits prod.splits option.splits)

lemma Handle_local_open:
  assumes "still_open w = {LocalConn}" shows "still_open (Handle E L c r w) - {LocalConn} = {}"
proof (cases "ServerHandshake c (serverConfig E r (w_store w))")
  case (Inl err)
  with assms show ?thesis by (simp add: Handle_def)
next
  case (Inr clientID)
  define w1 where "w1 = emit [Opened SecureConn] w"
  have w1: "still_open w1 = {SecureConn, LocalConn}" by (simp add: w1_def assms)
  have "still_open (handleTCPConnect E L c r clientID t w1) - {SecureConn} \<subseteq> {LocalConn}" for t
    using handleTCPConnect_still_open [of E L c r clientID t w1] w1 by auto
  moreover have "still_open (handleUDPAssociate E L c r clientID w1) - {SecureConn} \<subseteq> {LocalConn}"
    using handleUDPAssociate_still_open [of w1 E L c r clientID] w1 by auto
  ultimately show ?thesis
    using Inr w1 by (auto simp: Handle_def w1_def [symmetric] Let_def split: sum.splits)
qed

text \<open>A served connection, whatever the outside answers.\<close>

lemma handleConnection_some:
  assumes "service_ok E s" and "i \<in> set (c_Inbounds (sv_cfg s))"
  obtains w where "handleConnection E L N c s i w0 = Some (tally endConnection (emit [Closed LocalConn] w))"
    and "moves (Suc 0) (beginConnection (w_metrics w0)) (w_metrics w)"
    and "still_open w0 = {} \<Longrightarrow> still_open w - {LocalConn} = {}"
proof -
  define w1 where "w1 = emit [Opened LocalConn] (tally beginConnection w0)"
  have m1: "w_metrics w1 = beginConnection (w_metrics w0)" by (simp add: w1_def)
  have o1: "still_open w0 = {} \<Longrightarrow> still_open w1 = {LocalConn}" by (simp add: w1_def)
  show ?thesis
  proof (cases "relay_inbound i")
    case True
    then obtain r where r: "sv_relays s (i_Name i) = Some r"
      using assms unfolding service_ok_def by force
    show ?thesis
    proof (rule that [of "Handle E L c r w1"])
      show "handleConnection E L N c s i w0 =
          Some (tally endConnection (emit [Closed LocalConn] (Handle E L c r w1)))"
        using True r by (simp add: handleConnection_def relay_inbound_def w1_def)
      show "moves (Suc 0) (beginConnection (w_metrics w0)) (w_metrics (Handle E L c r w1))"
        using moves_Handle [of w1 E L c r] m1 by simp
      show "still_open (Handle E L c r w1) - {LocalConn} = {}" if "still_open w0 = {}"
        using Handle_local_open o1 that by simp
    qed
  next
    case False
    then obtain u where u: "sv_dialers s (i_Upstream i) = Some \<lparr>d_cfg = u\<rparr>"
      using assms unfolding service_ok_def by force
    show ?thesis
    proof (rule that [of "handle_upstream E N c i \<lparr>d_cfg = u\<rparr> w1"])
      show "handleConnection E L N c s i w0 =
          Some (tally endConnection (emit [Closed LocalConn] (handle_upstream E N c i \<lparr>d_cfg = u\<rparr> w1)))"
        using False u by (simp add: handleConnection_def relay_inbound_def w1_def)
      show "moves (Suc 0) (beginConnection (w_metrics w0))
          (w_metrics (handle_upstream E N c i \<lparr>d_cfg = u\<rparr> w1))"
        using handle_upstream_moves [of w1 E N c i "\<lparr>d_cfg = u\<rparr>"] m1 by simp
      show "still_open (handle_upstream E N c i \<lparr>d_cfg = u\<rparr> w1) - {LocalConn} = {}" if "still_open w0 = {}"
        using handle_upstream_still_open [of w1 E N c i "\<lparr>d_cfg = u\<rparr>"] o1 that by auto
    qed
  qed
qed

lemma moves_connection_counters:
  "moves k m m' \<Longrightarrow> m_active m' = m_active m \<and> m_total m' = m_total m \<and> m_rejected m' = m_rejected m"
  by (auto simp: moves_def apply_updates_eq count_list_0_iff)

definition error_count :: "Metrics \<Rightarrow> 64 word" where
  "error_count m = m_transportErrs m + m_handshakeErrs m + m_proxyErrs m"

lemma error_count_updates:
  "error_count (apply_updates us m) = error_count m + of_nat (length (filter is_error us))"
proof (induction us arbitrary: m)
  case (Cons u us)
  have "apply_updates (u # us) m = apply_updates us (apply_update u m)" by (simp add: apply_updates_def)
  moreover have "error_count (apply_update u m) = error_count m + (if is_error u then 1 else 0)"
    by (cases u) (simp_all add: metric_op_defs error_count_def)
  ultimately show ?case by (simp add: Cons.IH)
qed (simp add: apply_updates_def)

lemma moves_error_count:
  assumes "moves (Suc 0) m m'"
  shows "error_count m' = error_count m \<or> error_count m' = error_count m + 1"
proof -
  obtain us where us: "m' = apply_updates us m" "length (filter is_error us) \<le> Suc 0"
    using assms unfolding moves_def by blast
  define n where "n = length (filter is_error us)"
  have "n = 0 \<or> n = 1" using us(2) unfolding n_def by linarith
  then show ?thesis
    unfolding us(1) error_count_updates n_def [symmetric] by auto
qed

end
