(* ===== verification/Accept_Loop.thy ===== *)
theory Accept_Loop
  imports Node_Service
begin

text \<open>
  \<open>(*Service).acceptLoop\<close> (\<open>internal/node/service.go\<close>): one goroutine per inbound accepts
  connections, a counting semaphore of \<open>max_connections\<close> slots limits how many are served at a
  time, and every served connection has a goroutine of its own.  All of them share the
  counters and the wait group.

  A step of \<open>accept_step\<close> is one atomic action of one of these goroutines.  The goroutine of a
  connection goes through four stages: started, handling (between \<open>beginConnection\<close> and
  \<open>endConnection\<close>), handled (about to give its slot back) and released (about to call \<open>Done\<close>).
\<close>

section \<open>State\<close>

text \<open>\<open>loop_refused\<close> and \<open>refused_conns\<close> are ghosts: the connections an inbound and all of them refused.\<close>

record loop_state =
  slots :: nat
  started :: nat
  handling :: nat
  handled :: nat
  released :: nat
  returned :: "go_error option"
  loop_refused :: nat

record node_state =
  loops :: "string \<Rightarrow> loop_state"
  wait_group :: nat
  node_metrics :: Metrics
  refused_conns :: nat

definition loop_start :: loop_state where
  "loop_start = \<lparr>slots = 0, started = 0, handling = 0, handled = 0, released = 0, returned = None,
     loop_refused = 0\<rparr>"

definition node_start :: "Metrics \<Rightarrow> node_state" where
  "node_start m =
     \<lparr>loops = (\<lambda>_. loop_start), wait_group = 0, node_metrics = m, refused_conns = 0\<rparr>"

definition update_loop :: "string \<Rightarrow> (loop_state \<Rightarrow> loop_state) \<Rightarrow> node_state \<Rightarrow> node_state" where
  "update_loop name f s = s\<lparr>loops := (loops s)(name := f (loops s name))\<rparr>"

section \<open>Steps\<close>

text \<open>
  Whether \<open>sem <- struct{}{}\<close> would block: there is a semaphore and all its slots are taken.
  A token is taken and given back only with a semaphore.
\<close>

definition sem_full :: "InboundConfig \<Rightarrow> loop_state \<Rightarrow> bool" where
  "sem_full i l \<longleftrightarrow> i_MaxConnections i > 0 \<and> int (slots l) \<ge> i_MaxConnections i"

definition take_slot :: "InboundConfig \<Rightarrow> loop_state \<Rightarrow> loop_state" where
  "take_slot i l = (if i_MaxConnections i > 0 then l\<lparr>slots := slots l + 1\<rparr> else l)"

definition give_slot :: "InboundConfig \<Rightarrow> loop_state \<Rightarrow> loop_state" where
  "give_slot i l = (if i_MaxConnections i > 0 then l\<lparr>slots := slots l - 1\<rparr> else l)"

text \<open>What the loop returns when \<open>Accept\<close> fails: \<open>context.Canceled\<close> when the node is stopping.\<close>

definition accept_error :: "env \<Rightarrow> string \<Rightarrow> bool \<Rightarrow> go_error \<Rightarrow> go_error" where
  "accept_error E name cancelled err =
     (if cancelled \<or> errors_is err NetClosed then CtxCanceled
      else Wrap (''inbound '' @ strconv_Quote E name @ '' accept'') err)"

text \<open>What the loop does with an accepted connection: it refuses it or starts its goroutine.\<close>

definition accept_conn :: "InboundConfig \<Rightarrow> node_state \<Rightarrow> node_state" where
  "accept_conn i s =
     (if sem_full i (loops s (i_Name i))
      then (update_loop (i_Name i) (\<lambda>l. l\<lparr>loop_refused := loop_refused l + 1\<rparr>) s)
             \<lparr>node_metrics := addRejected (node_metrics s), refused_conns := refused_conns s + 1\<rparr>
      else (update_loop (i_Name i) (\<lambda>l. (take_slot i l)\<lparr>started := started l + 1\<rparr>) s)
             \<lparr>wait_group := wait_group s + 1\<rparr>)"

text \<open>The steps of the goroutines of the connections, then those of the loops as well.\<close>

inductive conn_step :: "InboundConfig list \<Rightarrow> node_state \<Rightarrow> node_state \<Rightarrow> bool"
  for ins :: "InboundConfig list"
where
  begin_connection: "i \<in> set ins \<Longrightarrow> started (loops s (i_Name i)) = Suc n \<Longrightarrow>
     conn_step ins s
       ((update_loop (i_Name i) (\<lambda>l. l\<lparr>started := n, handling := handling l + 1\<rparr>) s)
          \<lparr>node_metrics := beginConnection (node_metrics s)\<rparr>)"
| handler_update: "i \<in> set ins \<Longrightarrow> handling (loops s (i_Name i)) > 0 \<Longrightarrow> u \<notin> {Begin, End, Rejected} \<Longrightarrow>
     conn_step ins s (s\<lparr>node_metrics := apply_update u (node_metrics s)\<rparr>)"
| end_connection: "i \<in> set ins \<Longrightarrow> handling (loops s (i_Name i)) = Suc n \<Longrightarrow>
     conn_step ins s
       ((update_loop (i_Name i) (\<lambda>l. l\<lparr>handling := n, handled := handled l + 1\<rparr>) s)
          \<lparr>node_metrics := endConnection (node_metrics s)\<rparr>)"
| release_slot: "i \<in> set ins \<Longrightarrow> handled (loops s (i_Name i)) = Suc n \<Longrightarrow>
     conn_step ins s
       (update_loop (i_Name i) (\<lambda>l. (give_slot i l)\<lparr>handled := n, released := released l + 1\<rparr>) s)"
| wait_group_done: "i \<in> set ins \<Longrightarrow> released (loops s (i_Name i)) = Suc n \<Longrightarrow>
     conn_step ins s
       ((update_loop (i_Name i) (\<lambda>l. l\<lparr>released := n\<rparr>) s)\<lparr>wait_group := wait_group s - 1\<rparr>)"

definition loop_failed :: "env \<Rightarrow> InboundConfig \<Rightarrow> bool \<Rightarrow> go_error \<Rightarrow> node_state \<Rightarrow> node_state" where
  "loop_failed E i cancelled err s =
     update_loop (i_Name i) (\<lambda>l. l\<lparr>returned := Some (accept_error E (i_Name i) cancelled err)\<rparr>) s"

inductive accept_step :: "env \<Rightarrow> InboundConfig list \<Rightarrow> node_state \<Rightarrow> node_state \<Rightarrow> bool"
  for E :: env and ins :: "InboundConfig list"
where
  accepts: "i \<in> set ins \<Longrightarrow> returned (loops s (i_Name i)) = None \<Longrightarrow> accept_step E ins s (accept_conn i s)"
| accept_failed: "i \<in> set ins \<Longrightarrow> returned (loops s (i_Name i)) = None \<Longrightarrow>
     accept_step E ins s (loop_failed E i cancelled err s)"
| connection: "conn_step ins s t \<Longrightarrow> accept_step E ins s t"

section \<open>Invariant\<close>

definition loop_inv :: "InboundConfig \<Rightarrow> loop_state \<Rightarrow> bool" where
  "loop_inv i l \<longleftrightarrow>
     (if i_MaxConnections i > 0
      then slots l = started l + handling l + handled l \<and> int (slots l) \<le> i_MaxConnections i
      else slots l = 0)"

definition goroutines :: "loop_state \<Rightarrow> nat" where
  "goroutines l = started l + handling l + handled l + released l"

definition total_over :: "InboundConfig list \<Rightarrow> (loop_state \<Rightarrow> nat) \<Rightarrow> node_state \<Rightarrow> nat" where
  "total_over ins f s = sum_list (map (\<lambda>i. f (loops s (i_Name i))) ins)"

definition accept_inv :: "InboundConfig list \<Rightarrow> Metrics \<Rightarrow> node_state \<Rightarrow> bool" where
  "accept_inv ins m s \<longleftrightarrow>
     (\<forall>i \<in> set ins. loop_inv i (loops s (i_Name i))) \<and>
     wait_group s = total_over ins goroutines s \<and>
     m_active (node_metrics s) = m_active m + of_nat (total_over ins handling s) \<and>
     m_rejected (node_metrics s) = m_rejected m + of_nat (refused_conns s)"

lemma total_over_same [simp]:
  "total_over ins f (s\<lparr>wait_group := w\<rparr>) = total_over ins f s"
  "total_over ins f (s\<lparr>node_metrics := m\<rparr>) = total_over ins f s"
  "total_over ins f (s\<lparr>refused_conns := r\<rparr>) = total_over ins f s"
  by (simp_all add: total_over_def)

lemma update_loop_simps [simp]:
  "loops (update_loop name f s) = (loops s)(name := f (loops s name))"
  "wait_group (update_loop name f s) = wait_group s"
  "node_metrics (update_loop name f s) = node_metrics s"
  "refused_conns (update_loop name f s) = refused_conns s"
  by (simp_all add: update_loop_def)

text \<open>Changing one loop changes a total by the difference at that loop.\<close>

lemma total_over_update:
  assumes "i \<in> set ins" and "distinct (map i_Name ins)"
  shows "total_over ins g (update_loop (i_Name i) f s) + g (loops s (i_Name i))
       = total_over ins g s + g (f (loops s (i_Name i)))"
proof -
  obtain xs ys where ins: "ins = xs @ i # ys" using assms(1) by (meson split_list)
  have others: "map (\<lambda>j. g ((loops (update_loop (i_Name i) f s)) (i_Name j))) zs
      = map (\<lambda>j. g (loops s (i_Name j))) zs" if "i_Name i \<notin> i_Name ` set zs" for zs
    using that by (auto simp: image_iff)
  have fresh: "i_Name i \<notin> i_Name ` set xs" "i_Name i \<notin> i_Name ` set ys"
    using assms(2) by (auto simp: ins)
  show ?thesis
    by (simp only: total_over_def ins map_append list.map sum_list_append sum_list.Cons
        others [OF fresh(1)] others [OF fresh(2)]) simp
qed

lemma total_over_le:
  "i \<in> set ins \<Longrightarrow> f (loops s (i_Name i)) \<le> total_over ins f s"
  by (simp add: total_over_def member_le_sum_list)

lemma accept_inv_start: "accept_inv ins m (node_start m)"
  by (simp add: accept_inv_def node_start_def loop_start_def loop_inv_def total_over_def goroutines_def)

text \<open>A change of one loop that keeps its invariant and moves the totals as stated.\<close>

lemma accept_inv_update:
  assumes inv: "accept_inv ins m s" and i: "i \<in> set ins" and dist: "distinct (map i_Name ins)"
    and loop: "loop_inv i (loops s (i_Name i)) \<Longrightarrow> loop_inv i (f (loops s (i_Name i)))"
    and wg: "wg + goroutines (loops s (i_Name i)) = wait_group s + goroutines (f (loops s (i_Name i)))"
    and active: "m_active mm + of_nat (handling (loops s (i_Name i)))
        = m_active (node_metrics s) + of_nat (handling (f (loops s (i_Name i))))"
    and rejected: "m_rejected mm = m_rejected (node_metrics s)"
  shows "accept_inv ins m ((update_loop (i_Name i) f s)\<lparr>wait_group := wg, node_metrics := mm\<rparr>)"
proof -
  have loops_ok: "loop_inv j ((loops (update_loop (i_Name i) f s)) (i_Name j))" if j: "j \<in> set ins" for j
  proof (cases "i_Name j = i_Name i")
    case True
    then have "j = i" using dist i j by (auto simp: distinct_map inj_on_def)
    with inv i loop show ?thesis by (simp add: accept_inv_def)
  next
    case False
    with inv j show ?thesis by (simp add: accept_inv_def)
  qed
  have "wg = total_over ins goroutines (update_loop (i_Name i) f s)"
    using total_over_update [OF i dist, of goroutines f s] wg inv by (simp add: accept_inv_def)
  moreover have "m_active mm = m_active m + of_nat (total_over ins handling (update_loop (i_Name i) f s))"
  proof -
    define h h' where "h = (of_nat (handling (loops s (i_Name i))) :: 64 word)"
      and "h' = (of_nat (handling (f (loops s (i_Name i)))) :: 64 word)"
    define t t' where "t = (of_nat (total_over ins handling s) :: 64 word)"
      and "t' = (of_nat (total_over ins handling (update_loop (i_Name i) f s)) :: 64 word)"
    have "t' + h = t + h'"
      using total_over_update [OF i dist, of handling f s]
      unfolding h_def h'_def t_def t'_def by (metis of_nat_add)
    moreover have "m_active mm + h = m_active (node_metrics s) + h'"
      using active by (simp add: h_def h'_def)
    moreover have "m_active (node_metrics s) = m_active m + t"
      using inv by (simp add: accept_inv_def t_def)
    ultimately have "m_active mm + h = (m_active m + t') + h" by (simp add: add.assoc)
    then show ?thesis unfolding t'_def by (rule add_right_imp_eq)
  qed
  ultimately show ?thesis
    using inv loops_ok rejected by (simp add: accept_inv_def total_over_def)
qed

lemma accept_inv_accept:
  assumes i: "i \<in> set ins" and inv: "accept_inv ins m s" and dist: "distinct (map i_Name ins)"
  shows "accept_inv ins m (accept_conn i s)"
proof (cases "sem_full i (loops s (i_Name i))")
  case True
  have "accept_inv ins m ((update_loop (i_Name i) (\<lambda>l. l\<lparr>loop_refused := loop_refused l + 1\<rparr>) s)
      \<lparr>wait_group := wait_group s, node_metrics := node_metrics s\<rparr>)"
    by (rule accept_inv_update [OF inv i dist]) (auto simp: goroutines_def loop_inv_def)
  with True show ?thesis
    by (simp add: accept_conn_def accept_inv_def addRejected_def total_over_def update_loop_def)
next
  case False
  then have loop: "loop_inv i (loops s (i_Name i)) \<Longrightarrow>
      loop_inv i ((take_slot i (loops s (i_Name i)))\<lparr>started := started (loops s (i_Name i)) + 1\<rparr>)"
    by (auto simp: loop_inv_def take_slot_def sem_full_def)
  have "accept_inv ins m ((update_loop (i_Name i) (\<lambda>l. (take_slot i l)\<lparr>started := started l + 1\<rparr>) s)
      \<lparr>wait_group := wait_group s + 1, node_metrics := node_metrics s\<rparr>)"
    by (rule accept_inv_update [OF inv i dist])
      (use loop in \<open>auto simp: goroutines_def take_slot_def\<close>)
  with False show ?thesis by (simp add: accept_conn_def update_loop_def)
qed

lemma accept_inv_failed:
  assumes i: "i \<in> set ins" and inv: "accept_inv ins m s" and dist: "distinct (map i_Name ins)"
  shows "accept_inv ins m (loop_failed E i cancelled err s)"
proof -
  have "accept_inv ins m ((update_loop (i_Name i) (\<lambda>l. l\<lparr>returned := Some (accept_error E (i_Name i) cancelled err)\<rparr>) s)
      \<lparr>wait_group := wait_group s, node_metrics := node_metrics s\<rparr>)"
    by (rule accept_inv_update [OF inv i dist]) (auto simp: goroutines_def loop_inv_def)
  then show ?thesis by (simp add: loop_failed_def update_loop_def)
qed

lemma accept_inv_conn:
  assumes "conn_step ins s t" and inv: "accept_inv ins m s" and dist: "distinct (map i_Name ins)"
  shows "accept_inv ins m t"
  using assms(1)
proof (cases rule: conn_step.cases)
  case (begin_connection i n)
  have "accept_inv ins m ((update_loop (i_Name i) (\<lambda>l. l\<lparr>started := n, handling := handling l + 1\<rparr>) s)
      \<lparr>wait_group := wait_group s, node_metrics := beginConnection (node_metrics s)\<rparr>)"
    by (rule accept_inv_update [OF inv begin_connection(2) dist])
      (use begin_connection(3) in \<open>auto simp: goroutines_def loop_inv_def metric_op_defs\<close>)
  with begin_connection(1) show ?thesis by (simp add: update_loop_def)
next
  case (handler_update i u)
  then show ?thesis
    using inv moves_connection_counters [OF moves_one, of u "node_metrics s"]
    by (simp add: accept_inv_def total_over_def)
next
  case (end_connection i n)
  have "accept_inv ins m ((update_loop (i_Name i) (\<lambda>l. l\<lparr>handling := n, handled := handled l + 1\<rparr>) s)
      \<lparr>wait_group := wait_group s, node_metrics := endConnection (node_metrics s)\<rparr>)"
    by (rule accept_inv_update [OF inv end_connection(2) dist])
      (use end_connection(3) in \<open>auto simp: goroutines_def loop_inv_def metric_op_defs\<close>)
  with end_connection(1) show ?thesis by (simp add: update_loop_def)
next
  case (release_slot i n)
  then have loop: "loop_inv i (loops s (i_Name i)) \<Longrightarrow>
      loop_inv i ((give_slot i (loops s (i_Name i)))\<lparr>handled := n, released := released (loops s (i_Name i)) + 1\<rparr>)"
    by (auto simp: loop_inv_def give_slot_def)
  have "accept_inv ins m ((update_loop (i_Name i) (\<lambda>l. (give_slot i l)\<lparr>handled := n, released := released l + 1\<rparr>) s)
      \<lparr>wait_group := wait_group s, node_metrics := node_metrics s\<rparr>)"
    by (rule accept_inv_update [OF inv release_slot(2) dist])
      (use loop release_slot(3) in \<open>auto simp: goroutines_def give_slot_def\<close>)
  with release_slot(1) show ?thesis by (simp add: update_loop_def)
next
  case (wait_group_done i n)
  have pos: "wait_group s > 0"
    using total_over_le [OF wait_group_done(2), of goroutines s] wait_group_done(3) inv
    by (simp add: accept_inv_def goroutines_def)
  have "accept_inv ins m ((update_loop (i_Name i) (\<lambda>l. l\<lparr>released := n\<rparr>) s)
      \<lparr>wait_group := wait_group s - 1, node_metrics := node_metrics s\<rparr>)"
    by (rule accept_inv_update [OF inv wait_group_done(2) dist])
      (use pos wait_group_done(3) in \<open>auto simp: goroutines_def loop_inv_def\<close>)
  with wait_group_done(1) show ?thesis by (simp add: update_loop_def)
qed

lemma accept_inv_step:
  "accept_step E ins s t \<Longrightarrow> accept_inv ins m s \<Longrightarrow> distinct (map i_Name ins) \<Longrightarrow> accept_inv ins m t"
  by (cases rule: accept_step.cases) (auto intro: accept_inv_accept accept_inv_failed accept_inv_conn)

interpretation accept: invariant_system "accept_step E ins" "node_start m"
    "\<lambda>s. distinct (map i_Name ins) \<longrightarrow> accept_inv ins m s" for E ins m
  by unfold_locales (blast intro: accept_inv_start accept_inv_step)+

lemma accept_inv_reachable:
  "(accept_step E ins)\<^sup>*\<^sup>* (node_start m) s \<Longrightarrow> distinct (map i_Name ins) \<Longrightarrow> accept_inv ins m s"
  using accept.reachable by blast

section \<open>Consequences\<close>

lemma accept_inv_limit:
  assumes "accept_inv ins m s" and "i \<in> set ins" and "i_MaxConnections i > 0"
  shows "int (handling (loops s (i_Name i))) \<le> i_MaxConnections i"
proof -
  have "loop_inv i (loops s (i_Name i))" using assms(1,2) by (simp add: accept_inv_def)
  with assms(3) show ?thesis by (simp add: loop_inv_def)
qed

text \<open>A connection is refused only when the limit of its inbound is reached.\<close>

lemma refuse_only_when_full:
  assumes "accept_inv ins m s" and "i \<in> set ins" and "sem_full i (loops s (i_Name i))"
  shows "int (started (loops s (i_Name i)) + handling (loops s (i_Name i)) + handled (loops s (i_Name i)))
       = i_MaxConnections i"
proof -
  have "loop_inv i (loops s (i_Name i))" using assms(1,2) by (simp add: accept_inv_def)
  with assms(3) show ?thesis by (auto simp: loop_inv_def sem_full_def)
qed

text \<open>What a step that refuses a connection of an inbound does and where it is taken.\<close>

lemma refusing_step:
  assumes "accept_inv ins m s" and "distinct (map i_Name ins)" and "accept_step E ins s t" and "i \<in> set ins"
    and "loop_refused (loops t (i_Name i)) \<noteq> loop_refused (loops s (i_Name i))"
  shows "sem_full i (loops s (i_Name i)) \<and> t = accept_conn i s"
  using assms(3)
proof (cases rule: accept_step.cases)
  case (accepts j)
  then have "sem_full j (loops s (i_Name j)) \<and> i_Name i = i_Name j"
    using assms(5) by (auto simp: accept_conn_def take_slot_def split: if_splits)
  moreover from this have "i = j" using assms(2,4) accepts(2) by (auto simp: distinct_map inj_on_def)
  ultimately show ?thesis using accepts(1) by simp
next
  case (accept_failed j cancelled err)
  with assms(5) show ?thesis by (auto simp: loop_failed_def split: if_splits)
next
  case connection
  then show ?thesis
    using assms(5) by (cases rule: conn_step.cases) (auto simp: give_slot_def split: if_splits)
qed

text \<open>When the wait group is down to zero, nothing is active and every slot is free.\<close>

lemma wait_group_zero:
  assumes "accept_inv ins m s" and "wait_group s = 0"
  shows "m_active (node_metrics s) = m_active m \<and>
    (\<forall>i \<in> set ins. goroutines (loops s (i_Name i)) = 0 \<and> slots (loops s (i_Name i)) = 0)"
proof -
  have zero: "goroutines (loops s (i_Name i)) = 0" if "i \<in> set ins" for i
    using total_over_le [OF that, of goroutines s] assms by (simp add: accept_inv_def)
  then have "total_over ins handling s = 0"
    by (simp add: total_over_def goroutines_def sum_list_eq_0_iff)
  moreover have "slots (loops s (i_Name i)) = 0" if "i \<in> set ins" for i
    using zero [OF that] assms(1) that by (auto simp: accept_inv_def loop_inv_def goroutines_def split: if_splits)
  ultimately show ?thesis using assms(1) zero by (simp add: accept_inv_def)
qed

section \<open>Draining\<close>

text \<open>
  After the listeners are closed, the goroutines that are left finish one by one.  Each of
  their steps brings a connection forward, and as long as the wait group is not zero there is
  such a step.
\<close>

definition loop_work :: "loop_state \<Rightarrow> nat" where
  "loop_work l = 4 * started l + 3 * handling l + 2 * handled l + released l"

lemma drain_step:
  assumes "i \<in> set ins" and "distinct (map i_Name ins)" and "goroutines (loops s (i_Name i)) > 0"
  shows "\<exists>t. conn_step ins s t \<and> total_over ins loop_work t < total_over ins loop_work s"
proof -
  have less: "total_over ins loop_work (update_loop (i_Name i) f s) < total_over ins loop_work s"
    if "loop_work (f (loops s (i_Name i))) < loop_work (loops s (i_Name i))" for f
    using total_over_update [OF assms(1,2), of loop_work f s] that by linarith
  consider n where "started (loops s (i_Name i)) = Suc n" | n where "handling (loops s (i_Name i)) = Suc n"
    | n where "handled (loops s (i_Name i)) = Suc n" | n where "released (loops s (i_Name i)) = Suc n"
    using assms(3) by (cases "started (loops s (i_Name i))"; cases "handling (loops s (i_Name i))";
        cases "handled (loops s (i_Name i))"; cases "released (loops s (i_Name i))")
      (auto simp: goroutines_def)
  then show ?thesis
  proof cases
    case 1
    show ?thesis
      by (intro exI conjI, rule begin_connection [OF assms(1) 1])
        (use 1 in \<open>auto intro!: less simp: loop_work_def\<close>)
  next
    case 2
    show ?thesis
      by (intro exI conjI, rule end_connection [OF assms(1) 2])
        (use 2 in \<open>auto intro!: less simp: loop_work_def\<close>)
  next
    case 3
    show ?thesis
      by (intro exI conjI, rule release_slot [OF assms(1) 3])
        (use 3 in \<open>auto intro!: less simp: loop_work_def give_slot_def\<close>)
  next
    case 4
    show ?thesis
      by (intro exI conjI, rule wait_group_done [OF assms(1) 4])
        (use 4 in \<open>auto intro!: less simp: loop_work_def\<close>)
  qed
qed

definition finishing :: "env \<Rightarrow> InboundConfig list \<Rightarrow> node_state \<Rightarrow> node_state \<Rightarrow> bool" where
  "finishing E ins s t \<longleftrightarrow> accept_step E ins s t \<and> total_over ins loop_work t < total_over ins loop_work s"

interpretation finish: terminating_system "finishing E ins" s0 "(accept_step E ins)\<^sup>*\<^sup>* s0"
    "total_over ins loop_work" for E ins s0
  by unfold_locales (auto simp: finishing_def intro: rtranclp.rtrancl_into_rtrancl)

lemma finished_wait_group:
  assumes "accept_inv ins m s" and "distinct (map i_Name ins)" and "\<forall>t. \<not> finishing E ins s t"
  shows "wait_group s = 0"
proof -
  have "goroutines (loops s (i_Name i)) = 0" if "i \<in> set ins" for i
    using drain_step [OF that assms(2), of s] assms(3) by (auto simp: finishing_def intro: accept_step.connection)
  then show ?thesis using assms(1) by (simp add: accept_inv_def total_over_def sum_list_eq_0_iff)
qed

end
