(* ===== verification/Run_Service.thy ===== *)
theory Run_Service
  imports Accept_Loop
begin

text \<open>
  \<open>(*Service).Run\<close> (\<open>internal/node/service.go\<close>): the listeners are opened in order, then the
  admin server, then the reporter starts; the service runs until its context ends or a worker
  fails, closes everything it opened and waits for its goroutines.

  \<open>Listen opened address\<close> is the answer of \<open>net.Listen\<close> when the listeners \<open>opened\<close> are open; a
  listener is identified by the address it is bound to.
\<close>

section \<open>Startup\<close>

type_synonym listen_fun = "string list \<Rightarrow> string \<Rightarrow> go_error + string"

fun start_inbounds ::
  "listen_fun \<Rightarrow> InboundConfig list \<Rightarrow> string list \<Rightarrow> Service \<Rightarrow> go_error option \<times> string list \<times> Service"
where
  "start_inbounds Listen [] closers s = (None, closers, s)"
| "start_inbounds Listen (inbound # rest) closers s =
     (case Listen closers (i_Listen inbound) of
        Inl err \<Rightarrow> (Some (WrapQ ''listen inbound'' (i_Name inbound) err), closers, s)
      | Inr addr \<Rightarrow>
          start_inbounds Listen rest (closers @ [addr]) (setInboundAddress (i_Name inbound) addr s))"

text \<open>The store the reporter gets: that of any relay, nil without one.\<close>

definition reporter_store :: "Service \<Rightarrow> dynamicClientStore option" where
  "reporter_store s =
     (if \<exists>i \<in> set (c_Inbounds (sv_cfg s)). sv_relays s (i_Name i) \<noteq> None then Some (sv_store s) else None)"

definition service_reporter ::
  "string \<Rightarrow> string \<Rightarrow> string \<Rightarrow> string \<Rightarrow> Service \<Rightarrow> reporter option"
where
  "service_reporter hname runtimeInfo arch version s =
     map_option (\<lambda>kb. newKboardReporter kb (c_NodeID (sv_cfg s)) hname runtimeInfo arch version
       (reporter_store s) (sv_access s)) (c_Kboard (sv_cfg s))"

section \<open>Shutdown\<close>

text \<open>What ends the main \<open>select\<close>: the context, or the first error of a worker.\<close>

datatype run_event = ContextDone go_error | WorkerFailed go_error

definition run_error :: "run_event \<Rightarrow> go_error" where
  "run_error ev = (case ev of ContextDone err \<Rightarrow> err | WorkerFailed err \<Rightarrow> err)"

definition run_result :: "go_error \<Rightarrow> go_error option" where
  "run_result runErr =
     (if errors_is runErr CtxCanceled \<or> errors_is runErr CtxDeadline then None else Some runErr)"

text \<open>
  \<open>waitConnections\<close>: how long it waits for the connections, which are served after \<open>finish\<close> (\<open>None\<close>:
  never), and whether it gives up and logs that the grace time has elapsed.
\<close>

definition waitConnections :: "Config \<Rightarrow> int option \<Rightarrow> int \<times> bool" where
  "waitConnections cfg finish =
     (case finish of
        None \<Rightarrow> (ShutdownGraceDuration cfg, True)
      | Some d \<Rightarrow>
          if d \<le> ShutdownGraceDuration cfg then (d, False) else (ShutdownGraceDuration cfg, True))"

record run_outcome =
  ru_error :: "go_error option"
  ru_closed :: "string list"
  ru_service :: Service
  ru_shutdown_timeout :: "int option"
  ru_wait :: "int \<times> bool"

definition Run :: "listen_fun \<Rightarrow> run_event \<Rightarrow> int option \<Rightarrow> Service \<Rightarrow> run_outcome" where
  "Run Listen ev finish s0 =
     (case start_inbounds Listen (c_Inbounds (sv_cfg s0)) [] s0 of
        (Some err, closers, s) \<Rightarrow>
          \<lparr>ru_error = Some err, ru_closed = closers, ru_service = s, ru_shutdown_timeout = None,
            ru_wait = waitConnections (sv_cfg s0) finish\<rparr>
      | (None, closers, s) \<Rightarrow>
          (case startAdmin (Listen closers) s of
             Inl err \<Rightarrow>
               \<lparr>ru_error = Some err, ru_closed = closers, ru_service = s, ru_shutdown_timeout = None,
            ru_wait = waitConnections (sv_cfg s0) finish\<rparr>
           | Inr (adminListener, s) \<Rightarrow>
               (let closers = closers @ (case adminListener of None \<Rightarrow> [] | Some a \<Rightarrow> [a])
                in \<lparr>ru_error = run_result (run_error ev), ru_closed = closers, ru_service = s,
                    ru_shutdown_timeout =
                      (if adminListener \<noteq> None then Some (ShutdownGraceDuration (sv_cfg s)) else None),
                    ru_wait = waitConnections (sv_cfg s0) finish\<rparr>)))"

section \<open>Facts about startup\<close>

lemma setInboundAddress_simps [simp]:
  "sv_cfg (setInboundAddress n a s) = sv_cfg s" "sv_store (setInboundAddress n a s) = sv_store s"
  "sv_relays (setInboundAddress n a s) = sv_relays s" "sv_dialers (setInboundAddress n a s) = sv_dialers s"
  "sv_metrics (setInboundAddress n a s) = sv_metrics s" "sv_access (setInboundAddress n a s) = sv_access s"
  "sv_startedListeners (setInboundAddress n a s) = sv_startedListeners s + 1"
  "sv_inboundAddrs (setInboundAddress n a s) = (sv_inboundAddrs s)(n \<mapsto> a)"
  by (simp_all add: setInboundAddress_def)

lemma start_inbounds_facts:
  "start_inbounds Listen ins closers s = (res, closers', s') \<Longrightarrow>
     sv_cfg s' = sv_cfg s \<and>
     sv_startedListeners s' + length closers = sv_startedListeners s + length closers' \<and>
     length closers' \<le> length closers + length ins \<and>
     (res = None \<longleftrightarrow> length closers' = length closers + length ins) \<and>
     (res = None \<longrightarrow> dom (sv_inboundAddrs s') = dom (sv_inboundAddrs s) \<union> i_Name ` set ins)"
proof (induction Listen ins closers s arbitrary: res closers' s' rule: start_inbounds.induct)
  case (2 Listen inbound rest closers s)
  show ?case
  proof (cases "Listen closers (i_Listen inbound)")
    case (Inl err)
    with "2.prems" show ?thesis by auto
  next
    case (Inr addr)
    with "2.prems" have rest: "start_inbounds Listen rest (closers @ [addr])
        (setInboundAddress (i_Name inbound) addr s) = (res, closers', s')" by simp
    note ih = "2.IH" [OF Inr rest]
    then have "dom (sv_inboundAddrs s') = dom (sv_inboundAddrs s) \<union> i_Name ` set (inbound # rest)"
      if "res = None" using that by auto
    with ih show ?thesis by simp
  qed
qed auto

text \<open>Which listeners are open, and the call of \<open>Listen\<close> that failed.\<close>

lemma start_inbounds_opened:
  "start_inbounds Listen ins closers s = (res, closers', s') \<Longrightarrow>
     take (length closers) closers' = closers \<and>
     (\<forall>j. length closers + j < length closers' \<longrightarrow>
        Listen (take (length closers + j) closers') (i_Listen (ins ! j)) = Inr (closers' ! (length closers + j))) \<and>
     (res \<noteq> None \<longrightarrow>
        (\<exists>e. Listen closers' (i_Listen (ins ! (length closers' - length closers))) = Inl e \<and>
           res = Some (WrapQ ''listen inbound'' (i_Name (ins ! (length closers' - length closers))) e)))"
proof (induction Listen ins closers s arbitrary: res closers' s' rule: start_inbounds.induct)
  case (2 Listen inbound rest closers s)
  show ?case
  proof (cases "Listen closers (i_Listen inbound)")
    case (Inl err)
    with "2.prems" show ?thesis by auto
  next
    case (Inr addr)
    with "2.prems" have rest: "start_inbounds Listen rest (closers @ [addr])
        (setInboundAddress (i_Name inbound) addr s) = (res, closers', s')" by simp
    note ih = "2.IH" [OF Inr rest]
    define n where "n = length closers"
    from ih have pre: "take (Suc n) closers' = closers @ [addr]" by (simp add: n_def)
    then obtain more where "closers' = closers @ addr # more"
      using append_take_drop_id [of "Suc n" closers'] by (metis append.assoc append_Cons append_Nil)
    then have front: "take n closers' = closers" "closers' ! n = addr" and long: "n < length closers'"
      by (simp_all add: n_def)
    have "Listen (take (n + j) closers') (i_Listen ((inbound # rest) ! j)) = Inr (closers' ! (n + j))"
      if "n + j < length closers'" for j
    proof (cases j)
      case 0
      with Inr front show ?thesis by (simp add: n_def)
    next
      case (Suc k)
      with ih that show ?thesis by (simp add: n_def)
    qed
    moreover have "(inbound # rest) ! (length closers' - n) = rest ! (length closers' - Suc n)"
      using long by (simp add: nth_Cons' Suc_diff_Suc [symmetric])
    ultimately show ?thesis using ih front by (simp add: n_def)
  qed
qed auto

lemma service_ok_setInboundAddress [simp]: "service_ok E (setInboundAddress n a s) = service_ok E s"
  by (simp add: service_ok_def)

lemma start_inbounds_ok:
  "start_inbounds Listen ins closers s = (res, closers', s') \<Longrightarrow> service_ok E s \<Longrightarrow> service_ok E s'"
  by (induction Listen ins closers s arbitrary: res closers' s' rule: start_inbounds.induct)
    (auto split: sum.splits)

text \<open>Readiness counts listeners: 503 until the last one is open, 200 from then on.\<close>

lemma ready_iff:
  assumes "start_inbounds Listen ins [] s = (res, closers, s')" and "sv_startedListeners s = 0"
    and "prefix ins (c_Inbounds (sv_cfg s))"
  shows "fst (handleReady s') = 200 \<longleftrightarrow> length closers = length (c_Inbounds (sv_cfg s))"
  using start_inbounds_facts [OF assms(1)] assms(2) by (simp add: handleReady_def)

lemma Run_started:
  assumes "ru_shutdown_timeout (Run Listen ev finish s) \<noteq> None"
  shows "\<exists>closers s1 addr. start_inbounds Listen (c_Inbounds (sv_cfg s)) [] s = (None, closers, s1) \<and>
    startAdmin (Listen closers) s1 = Inr (Some addr, ru_service (Run Listen ev finish s)) \<and>
    ru_closed (Run Listen ev finish s) = closers @ [addr] \<and>
    ru_error (Run Listen ev finish s) = run_result (run_error ev)"
  using assms by (auto simp: Run_def Let_def split: prod.splits option.splits sum.splits if_splits)

lemma valid_admin_address: "Config_Validate E c0 = Inr cfg \<Longrightarrow> ad_Address (c_Admin cfg) \<noteq> []"
  unfolding Config_Validate_iff
  by (auto simp: normalize_config_def Config_applyDefaults_def Let_def DefaultAdminAddress_def)

text \<open>The three ways of \<open>Run\<close>: an inbound cannot listen, the admin server cannot, or it serves.\<close>

lemma Run_cases:
  assumes "ad_Address (c_Admin (sv_cfg s)) \<noteq> []"
    and "start_inbounds Listen (c_Inbounds (sv_cfg s)) [] s = (res, closers, s1)"
  obtains (inbound) err where "res = Some err" "Run Listen ev finish s =
      \<lparr>ru_error = Some err, ru_closed = closers, ru_service = s1, ru_shutdown_timeout = None,
        ru_wait = waitConnections (sv_cfg s) finish\<rparr>"
  | (admin) err where "res = None" "Listen closers (ad_Address (c_Admin (sv_cfg s))) = Inl err"
      "Run Listen ev finish s =
      \<lparr>ru_error = Some (Wrap ''listen admin'' err), ru_closed = closers, ru_service = s1,
        ru_shutdown_timeout = None, ru_wait = waitConnections (sv_cfg s) finish\<rparr>"
  | (serving) addr where "res = None" "Listen closers (ad_Address (c_Admin (sv_cfg s))) = Inr addr"
      "Run Listen ev finish s =
      \<lparr>ru_error = run_result (run_error ev), ru_closed = closers @ [addr], ru_service = setAdminAddress addr s1,
        ru_shutdown_timeout = Some (ShutdownGraceDuration (sv_cfg s)), ru_wait = waitConnections (sv_cfg s) finish\<rparr>"
proof (cases res)
  case (Some err)
  with assms(2) show ?thesis by (intro inbound) (simp_all add: Run_def)
next
  case None
  have s1: "sv_cfg s1 = sv_cfg s" using start_inbounds_facts [OF assms(2)] by blast
  show ?thesis
  proof (cases "Listen closers (ad_Address (c_Admin (sv_cfg s)))")
    case (Inl err)
    with None assms s1 show ?thesis by (intro admin) (simp_all add: Run_def startAdmin_def)
  next
    case (Inr addr)
    with None assms s1 show ?thesis
      by (intro serving) (simp_all add: Run_def startAdmin_def setAdminAddress_def)
  qed
qed

lemma run_result_cases:
  "run_result e = None \<or> (run_result e = Some e \<and> \<not> errors_is e CtxCanceled \<and> \<not> errors_is e CtxDeadline)"
  by (auto simp: run_result_def)

end
