(* ===== verification/Cli.thy ===== *)
theory Cli
  imports Run_Service
begin

text \<open>
  \<open>cmd/knode/main.go\<close>, and what \<open>internal/config\<close> does with files: \<open>Load\<close>, \<open>WriteSample\<close> and the
  sample configuration.  The operating system, the JSON decoder and the key generator of \<open>kless\<close>
  are the record \<open>os_env\<close>; so is what a running service meets: \<open>net.Listen\<close>, what ends it (a signal
  or the error of a worker), and how long its connections then take.

  A command writes lines and returns an error or nil; the flag package may end the process
  instead (\<open>flag.ExitOnError\<close>).
\<close>

section \<open>The outside\<close>

record os_env =
  os_Open :: "string \<Rightarrow> go_error + string"
  json_Config :: "string \<Rightarrow> go_error + Config"
  os_exists :: "string \<Rightarrow> bool"
  os_MkdirAll :: "string \<Rightarrow> nat \<Rightarrow> go_error option"
  os_WriteFile :: "string \<Rightarrow> string \<Rightarrow> nat \<Rightarrow> go_error option"
  manager_path :: string
  run_command :: "string \<Rightarrow> go_error option"
  net_Listen :: listen_fun
  run_end :: "Service \<Rightarrow> run_event"
  run_finish :: "Service \<Rightarrow> int option"
  start_time :: int
  GenerateServerIdentity :: "go_error + bytes \<times> bytes"
  GenerateClientSecret :: "go_error + bytes"
  EncodeKey :: "bytes \<Rightarrow> string"

text \<open>\<open>svc.Run(ctx)\<close> with the context that the signals end.\<close>

definition serve :: "os_env \<Rightarrow> Service \<Rightarrow> go_error option" where
  "serve S svc = ru_error (Run (net_Listen S) (run_end S svc) (run_finish S svc) svc)"

section \<open>Configuration files\<close>

definition Load :: "env \<Rightarrow> os_env \<Rightarrow> string \<Rightarrow> go_error + Config" where
  "Load E S path =
     (case os_Open S path of
        Inl err \<Rightarrow> Inl err
      | Inr f \<Rightarrow>
          (case json_Config S f of
             Inl err \<Rightarrow> Inl err
           | Inr cfg \<Rightarrow>
               (case Config_Validate E cfg of
                  Inl err \<Rightarrow> Inl err
                | Inr cfg' \<Rightarrow> Inr cfg')))"

definition defaultConfigFileMode :: nat where
  "defaultConfigFileMode = 0x180"

definition defaultConfigDirectory :: nat where
  "defaultConfigDirectory = 0x1ED"

definition WriteSample :: "os_env \<Rightarrow> string \<Rightarrow> string \<Rightarrow> go_error option" where
  "WriteSample S sample path =
     (case os_MkdirAll S (parentDir path) defaultConfigDirectory of
        Some err \<Rightarrow> Some err
      | None \<Rightarrow> os_WriteFile S path sample defaultConfigFileMode)"

text \<open>
  The configuration \<open>SampleJSON\<close> denotes: its fields, and the zero value of every field it
  leaves out.
\<close>

definition empty_server_kless :: ServerKLESSConfig where
  "empty_server_kless =
     \<lparr>s_ClientID = [], s_ClientSecret = [], s_ServerSigningKey = [], s_ServerSigningPrivate = [],
      s_Clients = [], s_Capabilities = [], s_MaxFramePayload = 0, s_PaddingMin = 0, s_PaddingMax = 0,
      s_HandshakeTimeout = [], s_MaxHandshakeSkew = [], s_UsersRefreshInterval = []\<rparr>"

definition SampleJSON_config :: Config where
  "SampleJSON_config =
     \<lparr>c_NodeID = ''knode-a'',
      c_Admin = \<lparr>ad_Address = ''127.0.0.1:8080''\<rparr>,
      c_ShutdownGrace = ''10s'',
      c_Kboard = None,
      c_Upstreams =
        [\<lparr>u_Name = ''kray-primary'', u_Transport = ''tcp'', u_Address = ''127.0.0.1:9000'',
          u_URL = [], u_ServerName = [], u_CAFile = [], u_InsecureSkipVerify = False, u_Headers = [],
          u_DialTimeout = ''10s'',
          u_KLESS =
            \<lparr>k_ClientID = ''knode-a'',
             k_ClientSecret = ''replace-with-base64url-client-secret'',
             k_ServerSigningKey = ''replace-with-base64url-ed25519-public-key'',
             k_ServerSigningPrivate = [], k_Capabilities = [], k_MaxFramePayload = 16384,
             k_PaddingMin = 0, k_PaddingMax = 0, k_HandshakeTimeout = ''10s''\<rparr>\<rparr>],
      c_Inbounds =
        [\<lparr>i_Name = ''local-tcp'', i_Listen = ''127.0.0.1:7000'', i_Mode = ''tcp'',
          i_Upstream = ''kray-primary'', i_MaxConnections = 1024, i_KLESS = empty_server_kless\<rparr>,
         \<lparr>i_Name = ''public-kless'', i_Listen = ''0.0.0.0:443'', i_Mode = ''kless-server'',
          i_Upstream = [], i_MaxConnections = 1024,
          i_KLESS = empty_server_kless
            \<lparr>s_ClientID := ''replace-with-krayn-client-id'',
             s_ClientSecret := ''replace-with-base64url-client-secret'',
             s_ServerSigningKey := ''replace-with-base64url-ed25519-public-key'',
             s_ServerSigningPrivate := ''replace-with-base64url-ed25519-private-key'',
             s_MaxFramePayload := 16384,
             s_HandshakeTimeout := ''10s''\<rparr>\<rparr>]\<rparr>"

section \<open>Flags\<close>

text \<open>
  \<open>flag.FlagSet.Parse\<close> for the two flags of the program.  A syntax error ends the process with
  status 2, a request for help with 0 (\<open>flag.ExitOnError\<close>), so \<open>Parse\<close> never returns an error.
\<close>

datatype flag_result = Parsed string bool | FlagExit nat

definition parse_bool :: "string \<Rightarrow> bool option" where
  "parse_bool s =
     (if s \<in> {''1'', ''t'', ''T'', ''TRUE'', ''true'', ''True''} then Some True
      else if s \<in> {''0'', ''f'', ''F'', ''FALSE'', ''false'', ''False''} then Some False
      else None)"

text \<open>The name and the value of \<open>name=value\<close>; the first byte of the name is not searched.\<close>

definition split_flag :: "string \<Rightarrow> string \<times> string option" where
  "split_flag s =
     (case s of
        [] \<Rightarrow> ([], None)
      | c # cs \<Rightarrow>
          (case dropWhile (\<lambda>x. x \<noteq> CHR ''='') cs of
             [] \<Rightarrow> (s, None)
           | _ # value \<Rightarrow> (c # takeWhile (\<lambda>x. x \<noteq> CHR ''='') cs, Some value)))"

definition flag_name :: "string \<Rightarrow> string" where
  "flag_name s = (if prefix ''--'' s then drop 2 s else drop 1 s)"

function parse_flags :: "bool \<Rightarrow> string list \<Rightarrow> string \<Rightarrow> bool \<Rightarrow> flag_result" where
  "parse_flags has_version args path ver =
     (case args of
        [] \<Rightarrow> Parsed path ver
      | s # rest \<Rightarrow>
          if length s < 2 \<or> hd s \<noteq> CHR ''-'' then Parsed path ver
          else if s = ''--'' then Parsed path ver
          else
            (let name0 = flag_name s
             in if name0 = [] \<or> hd name0 = CHR ''-'' \<or> hd name0 = CHR ''='' then FlagExit 2
                else
                  (let (name, value) = split_flag name0
                   in if name = ''config'' then
                        (case value of
                           Some v \<Rightarrow> parse_flags has_version rest v ver
                         | None \<Rightarrow>
                             (case rest of
                                [] \<Rightarrow> FlagExit 2
                              | v # rest' \<Rightarrow> parse_flags has_version rest' v ver))
                      else if has_version \<and> name = ''version'' then
                        (case value of
                           None \<Rightarrow> parse_flags has_version rest path True
                         | Some v \<Rightarrow>
                             (case parse_bool v of
                                None \<Rightarrow> FlagExit 2
                              | Some b \<Rightarrow> parse_flags has_version rest path b))
                      else if name = ''help'' \<or> name = ''h'' then FlagExit 0
                      else FlagExit 2)))"
  by pat_completeness auto
termination
  by (relation "measure (\<lambda>(_, args, _, _). length args)") auto

declare parse_flags.simps [simp del]

section \<open>Commands\<close>

datatype cli_result = Returned "go_error option" | Exited nat

definition with_flags ::
  "bool \<Rightarrow> string list \<Rightarrow> (string \<Rightarrow> bool \<Rightarrow> string list \<times> go_error option) \<Rightarrow> string list \<times> cli_result"
where
  "with_flags has_version args body =
     (case parse_flags has_version args ''knode.json'' False of
        FlagExit n \<Rightarrow> ([], Exited n)
      | Parsed path ver \<Rightarrow> (let (out, err) = body path ver in (out, Returned err)))"

definition version_line :: "string \<Rightarrow> string \<Rightarrow> string \<Rightarrow> string" where
  "version_line version commit date = ''knode '' @ version @ '' commit='' @ commit @ '' date='' @ date"

fun try_managers :: "os_env \<Rightarrow> string list \<Rightarrow> go_error option" where
  "try_managers S [] =
     Some (Err ''knode-manager not found; install or update it with: curl -fsSL https://raw.githubusercontent.com/kexue-aihao/Knode/master/install.sh | sudo bash -s -- update-script'')"
| "try_managers S (path # paths) =
     (if path = [] then try_managers S paths
      else if \<not> os_exists S path then try_managers S paths
      else run_command S path)"

definition openManagerMenu :: "os_env \<Rightarrow> go_error option" where
  "openManagerMenu S = try_managers S [manager_path S, ''/usr/local/bin/knode-manager'']"

definition runServer ::
  "env \<Rightarrow> os_env \<Rightarrow> string \<Rightarrow> string list \<Rightarrow> string list \<times> cli_result"
where
  "runServer E S ver_line args =
     with_flags True args (\<lambda>configPath showVersion.
       if showVersion then ([ver_line], None)
       else (case Load E S configPath of
               Inl err \<Rightarrow> ([], Some err)
             | Inr cfg \<Rightarrow>
                 (case New E (start_time S) cfg of
                    Inl err \<Rightarrow> ([], Some err)
                  | Inr svc \<Rightarrow> ([], serve S svc))))"

definition checkConfig :: "env \<Rightarrow> os_env \<Rightarrow> string list \<Rightarrow> string list \<times> cli_result" where
  "checkConfig E S args =
     with_flags False args (\<lambda>configPath _.
       case Load E S configPath of
         Inl err \<Rightarrow> ([], Some err)
       | Inr _ \<Rightarrow> ([''config: ok''], None))"

definition checkUpstreams :: "env \<Rightarrow> net_lib \<Rightarrow> os_env \<Rightarrow> string list \<Rightarrow> string list \<times> cli_result" where
  "checkUpstreams E N S args =
     with_flags False args (\<lambda>configPath _.
       case Load E S configPath of
         Inl err \<Rightarrow> ([], Some err)
       | Inr cfg \<Rightarrow> ([], fst (CheckUpstreams E N cfg)))"

definition initConfig :: "os_env \<Rightarrow> string \<Rightarrow> string list \<Rightarrow> string list \<times> cli_result" where
  "initConfig S sample args =
     with_flags False args (\<lambda>configPath _.
       if os_exists S configPath then ([], Some (Err (configPath @ '' already exists'')))
       else (case WriteSample S sample configPath of
               Some err \<Rightarrow> ([], Some err)
             | None \<Rightarrow> ([''created '' @ configPath], None)))"

definition generateKeys :: "os_env \<Rightarrow> string list \<times> cli_result" where
  "generateKeys S =
     (case GenerateServerIdentity S of
        Inl err \<Rightarrow> ([], Returned (Some err))
      | Inr (serverPublic, serverPrivate) \<Rightarrow>
          (case GenerateClientSecret S of
             Inl err \<Rightarrow> ([], Returned (Some err))
           | Inr clientSecret \<Rightarrow>
               ([''server_signing_public='' @ EncodeKey S serverPublic,
                 ''server_signing_private='' @ EncodeKey S serverPrivate,
                 ''client_secret='' @ EncodeKey S clientSecret], Returned None)))"

definition usage_lines :: "string list" where
  "usage_lines =
     [''Knode node backend'', [], ''Usage:'', ''  knode'', ''  knode menu'',
      ''  knode run -config knode.json'', ''  knode check -config knode.json'',
      ''  knode check-upstreams -config knode.json'', ''  knode init -config knode.json'',
      ''  knode gen-keys'', ''  knode version'']"

text \<open>The dispatch on the command, which is \<open>run\<close> when the first argument is a flag.\<close>

definition dispatch ::
  "env \<Rightarrow> net_lib \<Rightarrow> os_env \<Rightarrow> string \<Rightarrow> string \<Rightarrow> string \<Rightarrow> string list \<Rightarrow> string list \<times> cli_result"
where
  "dispatch E N S sample ver_line command args =
     (if command \<in> {''run'', ''serve'', ''start''} then runServer E S ver_line args
      else if command \<in> {''check'', ''validate''} then checkConfig E S args
      else if command = ''check-upstreams'' then checkUpstreams E N S args
      else if command \<in> {''init'', ''init-config''} then initConfig S sample args
      else if command \<in> {''gen-keys'', ''keys''} then generateKeys S
      else if command \<in> {''menu'', ''manage''} then ([], Returned (openManagerMenu S))
      else if command = ''version'' then ([ver_line], Returned None)
      else if command \<in> {''help'', ''-h'', ''--help''} then (usage_lines, Returned None)
      else ([], Returned (Some (ErrQ ''unknown command'' command))))"

definition run_cli ::
  "env \<Rightarrow> net_lib \<Rightarrow> os_env \<Rightarrow> string \<Rightarrow> string \<Rightarrow> string list \<Rightarrow> string list \<times> cli_result"
where
  "run_cli E N S sample ver_line args =
     (case args of
        [] \<Rightarrow> ([], Returned (openManagerMenu S))
      | first # rest \<Rightarrow>
          if \<not> prefix ''-'' first then dispatch E N S sample ver_line first rest
          else dispatch E N S sample ver_line ''run'' args)"

text \<open>The exit status of the process.\<close>

definition main_status :: "string list \<times> cli_result \<Rightarrow> nat" where
  "main_status r =
     (case snd r of
        Exited n \<Rightarrow> n
      | Returned None \<Rightarrow> 0
      | Returned (Some _) \<Rightarrow> 1)"

section \<open>Facts\<close>

lemma Load_ok_iff:
  "Load E S path = Inr c \<longleftrightarrow>
     (\<exists>f c0. os_Open S path = Inr f \<and> json_Config S f = Inr c0 \<and> Config_Validate E c0 = Inr c)"
  by (auto simp: Load_def split: sum.splits)

lemma parse_config_flag:
  "parse_flags v [''-config'', path] p b = Parsed path b"
  by (simp add: parse_flags.simps flag_name_def split_flag_def)

lemma parse_no_flags: "parse_flags v [] p b = Parsed p b"
  by (simp add: parse_flags.simps)

lemma checkConfig_ok:
  "main_status (checkConfig E S [''-config'', path]) = 0 \<longleftrightarrow> is_ok (Load E S path)"
  by (auto simp: checkConfig_def with_flags_def parse_config_flag main_status_def split: sum.splits)

lemma run_cli_flag_first:
  "prefix ''-'' first \<Longrightarrow> run_cli E N S sample ver_line (first # rest) = runServer E S ver_line (first # rest)"
  by (simp add: run_cli_def dispatch_def)

lemma parentDir_root: "CHR ''/'' \<notin> set name \<Longrightarrow> CHR 0x5C \<notin> set name \<Longrightarrow> parentDir (CHR ''/'' # name) = []"
  by (auto simp: parentDir_def is_path_separator_def dropWhile_append list_ex_iff)

end
