(* ===== verification/Samples.thy ===== *)
theory Samples
  imports Cli
begin

text \<open>
  Concrete values the witnesses of the properties use: an environment, a configuration with an
  upstream, a TCP inbound, a relay inbound and a panel, and the answers of the outside.
\<close>

section \<open>Environment and configuration\<close>

definition sample_kless :: kless_lib where
  "sample_kless =
     \<lparr>CapabilityTCP = 1, CapabilityTLS = 2, CapabilityHTTPUpgrade = 4, CapabilityWebSocket = 8,
      CapabilityHTTP = 16, CapabilityGRPC = 32, CapabilityXHTTP = 64, CapabilityHTTP3 = 128,
      CapabilityAll = 255, DefaultMaxFramePayload = 16384, MaxHandshakePadding = 1024,
      DefaultHandshakeSkew = 120 * Second\<rparr>"

definition sample_url :: parsed_url where
  "sample_url = \<lparr>url_Scheme = ''https'', url_Host = ''panel'', url_EscapedPath = ''/api'', url_RawQuery = []\<rparr>"

definition sample_env :: env where
  "sample_env =
     \<lparr>kless = sample_kless, unicode_ToLower = (\<lambda>s. s), unicode_Quote = (\<lambda>s. s),
      url_Parse = (\<lambda>_. Inr sample_url), url_ParseRequestURI = (\<lambda>_. Inr sample_url),
      os_Stat = (\<lambda>_. Inr ())\<rparr>"

definition sample_secret :: bytes where "sample_secret = replicate 32 7"
definition sample_public :: bytes where "sample_public = replicate 32 1"
definition sample_private :: bytes where "sample_private = replicate 64 1"

definition key_text :: "bytes \<Rightarrow> string" where
  "key_text bs = b64_encode RawURLEncoding bs"

definition sample_upstream :: UpstreamConfig where
  "sample_upstream =
     \<lparr>u_Name = ''primary'', u_Transport = ''tcp'', u_Address = ''127.0.0.1:9000'', u_URL = [],
      u_ServerName = [], u_CAFile = [], u_InsecureSkipVerify = False, u_Headers = [],
      u_DialTimeout = ''10s'',
      u_KLESS = \<lparr>k_ClientID = ''knode-a'', k_ClientSecret = key_text sample_secret,
        k_ServerSigningKey = key_text sample_public, k_ServerSigningPrivate = [],
        k_Capabilities = [], k_MaxFramePayload = 0, k_PaddingMin = 0, k_PaddingMax = 0,
        k_HandshakeTimeout = ''10s''\<rparr>\<rparr>"

definition sample_tcp_inbound :: InboundConfig where
  "sample_tcp_inbound =
     \<lparr>i_Name = ''local'', i_Listen = ''127.0.0.1:7000'', i_Mode = ''tcp'', i_Upstream = ''primary'',
      i_MaxConnections = 1,
      i_KLESS = empty_server_kless\<lparr>s_HandshakeTimeout := ''10s'', s_MaxHandshakeSkew := ''2m0s'',
        s_UsersRefreshInterval := ''5m0s''\<rparr>\<rparr>"

definition sample_relay_inbound :: InboundConfig where
  "sample_relay_inbound =
     \<lparr>i_Name = ''public'', i_Listen = ''0.0.0.0:443'', i_Mode = ''kless-server'', i_Upstream = [],
      i_MaxConnections = 2,
      i_KLESS = empty_server_kless\<lparr>s_ClientID := ''fixed'', s_ClientSecret := key_text sample_secret,
        s_ServerSigningPrivate := key_text sample_private, s_HandshakeTimeout := ''10s'',
        s_MaxHandshakeSkew := ''2m0s'', s_UsersRefreshInterval := ''5m0s''\<rparr>\<rparr>"

definition sample_kboard :: KboardConfig where
  "sample_kboard =
     \<lparr>kb_PublicURL = ''https://panel'', kb_NodeID = ''7'', kb_NodeSharedSecret = ''shared'',
      kb_ConfigEndpoint = [], kb_UsersEndpoint = ''/users'', kb_TrafficEndpoint = [],
      kb_AliveEndpoint = ''/alive'', kb_AccessLogsEndpoint = ''/logs'', kb_ReportInterval = ''30s''\<rparr>"

definition sample_config :: Config where
  "sample_config =
     \<lparr>c_NodeID = ''knode-a'', c_Admin = \<lparr>ad_Address = ''127.0.0.1:8080''\<rparr>, c_ShutdownGrace = ''10s'',
      c_Kboard = Some sample_kboard, c_Upstreams = [sample_upstream],
      c_Inbounds = [sample_tcp_inbound, sample_relay_inbound]\<rparr>"

lemmas sample_config_defs =
  sample_config_def sample_kboard_def sample_relay_inbound_def sample_tcp_inbound_def
  sample_upstream_def empty_server_kless_def

section \<open>It is valid and in normal form\<close>

lemma plain_text: "list_all plain_char s \<Longrightarrow> trim_space s = s"
  by (rule trim_space_all_plain) (simp add: list_all_iff)

lemma trim_key_text [simp]: "trim_space (key_text bs) = key_text bs"
  unfolding key_text_def by (rule trim_space_all_plain) (auto dest: b64_encode_plain)

lemma decodeKey_key_text [simp]: "decodeKey (key_text bs) = Inr bs"
  unfolding key_text_def by (rule decodeKey_encode)

lemma sample_texts [simp]:
  "trim_space ''knode-a'' = ''knode-a''" "trim_space ''primary'' = ''primary''"
  "trim_space ''127.0.0.1:9000'' = ''127.0.0.1:9000''" "trim_space ''local'' = ''local''"
  "trim_space ''127.0.0.1:7000'' = ''127.0.0.1:7000''" "trim_space ''public'' = ''public''"
  "trim_space ''0.0.0.0:443'' = ''0.0.0.0:443''" "trim_space ''fixed'' = ''fixed''"
  "trim_space ''https://panel'' = ''https://panel''" "trim_space ''7'' = ''7''"
  "trim_space ''shared'' = ''shared''" "trim_space ''/users'' = ''/users''"
  "trim_space ''/alive'' = ''/alive''" "trim_space ''/logs'' = ''/logs''"
  by (rule plain_text; simp add: plain_char_def)+

lemma sample_lower [simp]:
  "ToLower sample_env ''tcp'' = ''tcp''" "ToLower sample_env ''kless-server'' = ''kless-server''"
  by (simp_all add: ToLower_ascii is_ascii_def ascii_lower_def)

lemma sample_mode [simp]:
  "normalizeInboundMode sample_env ''tcp'' = ''tcp''"
  "normalizeInboundMode sample_env ''kless-server'' = ''kless-server''"
  by (simp_all add: normalizeInboundMode_def inbound_mode_defs)

lemma sample_normal: "normalize_config sample_env sample_config = sample_config"
  by (simp add: normalize_config_def Config_applyDefaults_def sample_config_defs
      KboardConfig_applyDefaults_def normalizeEndpoint_def trim_right_slash_def
      UpstreamConfig_applyDefaults_def InboundConfig_applyDefaults_def normalize_inbound_def
      normalize_server_def ServerKLESSConfig_applyDefaults_def inbound_mode_defs)

lemma fmt_frac_numeral:
  "fmt_frac (numeral k) p v buf =
     fmt_frac (pred_numeral k) (p \<or> v mod 10 \<noteq> 0) (v div 10)
       (if p \<or> v mod 10 \<noteq> 0 then char_of (48 + v mod 10) # buf else buf)"
  by (subst numeral_eq_Suc) (rule fmt_frac.simps(2))

lemma sample_durations [simp]:
  "good_duration ''10s''" "good_duration ''2m0s''" "good_duration ''5m0s''" "good_duration ''30s''"
proof -
  have "Duration_String (10 * Second) = ''10s''" "Duration_String (120 * Second) = ''2m0s''"
    "Duration_String (5 * Minute) = ''5m0s''" "Duration_String (30 * Second) = ''30s''"
    by (simp_all add: Second_def Minute_def Duration_String_def fmt_seconds_def fmt_frac_numeral
        nat_digits.simps char_of_eq_iff)
  then show "good_duration ''10s''" "good_duration ''2m0s''" "good_duration ''5m0s''" "good_duration ''30s''"
    using ParseDuration_String [of "10 * Second"] ParseDuration_String [of "120 * Second"]
      ParseDuration_String [of "5 * Minute"] ParseDuration_String [of "30 * Second"]
    by (simp_all add: good_duration_def Second_def Minute_def)
qed

lemma key_text_inj [simp]: "key_text a = key_text b \<longleftrightarrow> a = b"
  by (metis decodeKey_key_text sum.inject(2))

lemma key_text_Nil [simp]: "key_text bs = [] \<longleftrightarrow> bs = []"
proof -
  have "key_text [] = []" by (simp add: key_text_def)
  then show ?thesis by (metis key_text_inj)
qed

lemma sample_secret_good [simp]: "good_secret (key_text sample_secret)"
  by (simp add: good_secret_def sample_secret_def)

lemma sample_keys_differ [simp]: "sample_secret \<noteq> sample_public"
  by (simp add: sample_secret_def sample_public_def)

lemma sample_key_lengths [simp]:
  "length sample_secret = 32" "length sample_public = 32" "length sample_private = 64"
  "sample_secret \<noteq> []" "sample_public \<noteq> []" "sample_private \<noteq> []"
  by (simp_all add: sample_secret_def sample_public_def sample_private_def)

lemma sample_fields [simp]:
  "u_Name sample_upstream = ''primary''" "u_Transport sample_upstream = ''tcp''"
  "u_Address sample_upstream = ''127.0.0.1:9000''" "u_DialTimeout sample_upstream = ''10s''"
  "u_CAFile sample_upstream = []" "i_Name sample_tcp_inbound = ''local''"
  "i_Listen sample_tcp_inbound = ''127.0.0.1:7000''" "i_Mode sample_tcp_inbound = ''tcp''"
  "i_Upstream sample_tcp_inbound = ''primary''" "i_MaxConnections sample_tcp_inbound = 1"
  "i_Name sample_relay_inbound = ''public''" "i_Listen sample_relay_inbound = ''0.0.0.0:443''"
  "i_Mode sample_relay_inbound = ''kless-server''" "i_MaxConnections sample_relay_inbound = 2"
  "c_Inbounds sample_config = [sample_tcp_inbound, sample_relay_inbound]"
  "c_Upstreams sample_config = [sample_upstream]" "c_Kboard sample_config = Some sample_kboard"
  by (simp_all add: sample_upstream_def sample_tcp_inbound_def sample_relay_inbound_def sample_config_def)

lemma sample_url_ok [simp]: "is_ok (url_ParseRequestURI sample_env t)" "url_Parse sample_env t = Inr sample_url"
  by (simp_all add: sample_env_def)

lemma sample_valid: "valid_Config sample_env sample_config"
proof -
  have key: "unmixed (key_text sample_secret) (key_text sample_public)"
    by (simp add: unmixed_def)
  have "valid_KLESSConfig sample_env ''tcp'' (u_KLESS sample_upstream)"
    using key
    by (simp add: valid_KLESSConfig_def sample_upstream_def good_padding_def sample_env_def sample_kless_def
        capabilityMask_def capabilityForTransport_def transport_defs)
  moreover have "valid_ServerKLESSConfig sample_env True (i_KLESS sample_relay_inbound)"
    by (simp add: valid_ServerKLESSConfig_def sample_relay_inbound_def empty_server_kless_def good_padding_def
        sample_env_def sample_kless_def CapabilityMask_def capabilityMaskForNames_def good_private_def)
  ultimately show ?thesis
    by (simp add: valid_Config_def sample_config_def valid_UpstreamConfig_def valid_InboundConfig_def
        valid_KboardConfig_def sample_kboard_def allow_dynamic_def supported_transports_def transport_defs
        transportUsesAddress_def inbound_mode_defs)
qed

lemma sample_validates: "Config_Validate sample_env sample_config = Inr sample_config"
  unfolding Config_Validate_iff using sample_normal sample_valid by simp

end
