(* ===== verification/Config_Properties.thy ===== *)
theory Config_Properties
  imports Samples
begin

text \<open>
  The properties of \<open>internal/config\<close>: what \<open>Validate\<close> accepts and returns, what holds of the
  accessors afterwards, key material and durations.  Each property is followed by its
  application at a concrete input where it has hypotheses.
\<close>

section \<open>Validation\<close>

text \<open>C1: \<open>Validate\<close> succeeds exactly on the configurations whose normal form (defaults filled in,
  texts trimmed, modes and transports normalised) satisfies the declarative validity predicate,
  and returns that normal form.  Every check, in whatever order the code makes it, is covered.\<close>

theorem Validate_exact:
  "Config_Validate E c0 = Inr c \<longleftrightarrow> c = normalize_config E c0 \<and> valid_Config E c"
  by (rule Config_Validate_iff)

text \<open>The error names the first upstream that is wrong.\<close>

lemma validate_upstreams_error:
  "validate_upstreams E n seen us = Inl err \<Longrightarrow>
     \<exists>pre u post vs e. us = pre @ u # post \<and> err = WrapIdx ''upstreams'' (n + length pre) e \<and>
       list_all2 (\<lambda>u v. UpstreamConfig_Validate E u = Inr v) pre vs \<and>
       distinct (map u_Name vs) \<and> u_Name ` set vs \<inter> seen = {} \<and>
       (UpstreamConfig_Validate E u = Inl e \<or>
        (\<exists>v. UpstreamConfig_Validate E u = Inr v \<and> e = ErrQ ''duplicate upstream name'' (u_Name v) \<and>
           u_Name v \<in> seen \<union> u_Name ` set vs))"
proof (induction us arbitrary: n seen)
  case (Cons u us)
  show ?case
  proof (cases "UpstreamConfig_Validate E u")
    case (Inl e)
    with Cons.prems show ?thesis
      by (intro exI [of _ "[]"] exI [of _ u] exI [of _ us] exI [of _ e]) simp
  next
    case (Inr v)
    show ?thesis
    proof (cases "u_Name v \<in> seen")
      case True
      with Cons.prems Inr show ?thesis
        by (intro exI [of _ "[]"] exI [of _ u] exI [of _ us]) simp
    next
      case False
      with Cons.prems Inr have "validate_upstreams E (n + 1) (insert (u_Name v) seen) us = Inl err"
        by (auto split: sum.splits)
      from Cons.IH [OF this] obtain pre u' post vs e where
        "us = pre @ u' # post" "err = WrapIdx ''upstreams'' (n + 1 + length pre) e"
        "list_all2 (\<lambda>u v. UpstreamConfig_Validate E u = Inr v) pre vs"
        "distinct (map u_Name vs)" "u_Name ` set vs \<inter> insert (u_Name v) seen = {}"
        "UpstreamConfig_Validate E u' = Inl e \<or>
         (\<exists>w. UpstreamConfig_Validate E u' = Inr w \<and> e = ErrQ ''duplicate upstream name'' (u_Name w) \<and>
            u_Name w \<in> insert (u_Name v) seen \<union> u_Name ` set vs)"
        by blast
      with Inr False show ?thesis
        by (intro exI [of _ "u # pre"] exI [of _ u'] exI [of _ post] exI [of _ "v # vs"] exI [of _ e]) auto
    qed
  qed
qed simp

text \<open>C29: When the upstream list is rejected, the error carries the index of the first upstream that
  does not validate or whose name one before it has: the upstreams before it all validate, and
  their normalised names are pairwise different.\<close>

theorem upstream_error_position:
  assumes "validate_upstreams E 0 {} us = Inl err"
  shows "\<exists>pre u post vs e. us = pre @ u # post \<and> err = WrapIdx ''upstreams'' (length pre) e \<and>
    list_all2 (\<lambda>u v. UpstreamConfig_Validate E u = Inr v) pre vs \<and> distinct (map u_Name vs) \<and>
    (UpstreamConfig_Validate E u = Inl e \<or>
     (\<exists>v. UpstreamConfig_Validate E u = Inr v \<and> e = ErrQ ''duplicate upstream name'' (u_Name v) \<and>
        u_Name v \<in> u_Name ` set vs))"
  using validate_upstreams_error [OF assms] by auto

lemma sample_upstream_validates: "UpstreamConfig_Validate sample_env sample_upstream = Inr sample_upstream"
  using valid_upstream_stable [OF sample_validates, of sample_upstream] by simp

lemma duplicate_upstreams:
  "validate_upstreams sample_env 0 {} [sample_upstream, sample_upstream]
     = Inl (WrapIdx ''upstreams'' 1 (ErrQ ''duplicate upstream name'' ''primary''))"
  by (simp add: sample_upstream_validates)

theorem upstream_error_position_witness:
  "\<exists>pre u post e. [sample_upstream, sample_upstream] = pre @ u # post \<and>
    WrapIdx ''upstreams'' 1 (ErrQ ''duplicate upstream name'' ''primary'') = WrapIdx ''upstreams'' (length pre) e"
  using upstream_error_position [OF duplicate_upstreams] by blast

text \<open>C28: Validating a validated configuration again changes nothing, provided the panel's URL is
  stable under trimming; the node validates its configuration up to three times.\<close>

theorem Validate_idempotent:
  assumes "Config_Validate E c = Inr c'" and "\<forall>k \<in> set_option (c_Kboard c'). stable_url k"
  shows "Config_Validate E c' = Inr c'"
  using assms by (rule Config_Validate_twice)

lemma sample_stable_url: "\<forall>k \<in> set_option (c_Kboard sample_config). stable_url k"
  by (simp add: stable_url_def sample_kboard_def trim_right_slash_def)

theorem Validate_idempotent_witness:
  "Config_Validate sample_env sample_config = Inr sample_config"
  using Validate_idempotent [OF sample_validates sample_stable_url] .

text \<open>Without that proviso normalisation is not idempotent: blanks are trimmed before slashes, so
  a URL that ends in a slash, a blank and a slash loses one layer with every pass.\<close>

theorem public_url_unstable:
  "\<exists>k. KboardConfig_applyDefaults (KboardConfig_applyDefaults k) \<noteq> KboardConfig_applyDefaults k"
proof -
  define k where "k = sample_kboard\<lparr>kb_PublicURL := ''https://h/ /''\<rparr>"
  have t1: "trim_space ''https://h/ /'' = ''https://h/ /''"
    by (rule trim_space_plain) (simp_all add: plain_char_def)
  have t2: "trim_space ''https://h/ '' = ''https://h/''"
    by (simp add: trim_space_def trim_left_def trim_right_def strip_seqs.simps white_seqs_def)
  have "kb_PublicURL (KboardConfig_applyDefaults k) = ''https://h/ ''"
    by (simp add: k_def KboardConfig_applyDefaults_def t1 trim_right_slash_def)
  moreover from this have "kb_PublicURL (KboardConfig_applyDefaults (KboardConfig_applyDefaults k)) = ''https://h''"
    by (simp add: KboardConfig_applyDefaults_def [of "KboardConfig_applyDefaults k"] t2 trim_right_slash_def)
  ultimately have "kb_PublicURL (KboardConfig_applyDefaults (KboardConfig_applyDefaults k))
      \<noteq> kb_PublicURL (KboardConfig_applyDefaults k)" by simp
  then show ?thesis by (intro exI [of _ k]) auto
qed

section \<open>After validation\<close>

lemma normal_skew_nonempty:
  "s_MaxHandshakeSkew (i_KLESS (normalize_inbound E (InboundConfig_applyDefaults E i))) \<noteq> []"
  by (simp add: normalize_inbound_def InboundConfig_applyDefaults_def normalize_server_def
      ServerKLESSConfig_applyDefaults_def Let_def)

text \<open>C30: The duration accessors, which drop the parse error and return zero with it, are positive on
  every validated configuration: no timeout, ticker period or grace time is ever zero.\<close>

theorem durations_positive:
  assumes "Config_Validate E c0 = Inr c"
  shows "0 < ShutdownGraceDuration c \<and>
    (\<forall>k \<in> set_option (c_Kboard c). 0 < ReportIntervalDuration k) \<and>
    (\<forall>u \<in> set (c_Upstreams c). 0 < DialTimeoutDuration u) \<and>
    (\<forall>i \<in> set (c_Inbounds c). relay_inbound i \<longrightarrow>
       0 < HandshakeTimeoutDuration (i_KLESS i) \<and> 0 < MaxHandshakeSkewDuration E (i_KLESS i) \<and>
       0 < UsersRefreshIntervalDuration (i_KLESS i))"
proof -
  have valid: "valid_Config E c" and norm: "c = normalize_config E c0"
    using assms unfolding Config_Validate_iff by blast+
  have modes: "InboundModeTCP \<noteq> InboundModeKLESSServer" by (simp add: inbound_mode_defs)
  have relay: "good_duration (s_HandshakeTimeout (i_KLESS i)) \<and> good_duration (s_MaxHandshakeSkew (i_KLESS i)) \<and>
      good_duration (s_UsersRefreshInterval (i_KLESS i)) \<and> s_MaxHandshakeSkew (i_KLESS i) \<noteq> []"
    if i: "i \<in> set (c_Inbounds c)" "relay_inbound i" for i
  proof -
    obtain i0 where "i = normalize_inbound E (InboundConfig_applyDefaults E i0)"
      using i(1) by (auto simp: norm normalize_config_def Config_applyDefaults_def Let_def)
    then have "s_MaxHandshakeSkew (i_KLESS i) \<noteq> []" by (simp add: normal_skew_nonempty)
    moreover have "valid_ServerKLESSConfig E (allow_dynamic (c_Kboard c)) (i_KLESS i)"
      using valid i modes by (auto simp: valid_Config_def valid_InboundConfig_def relay_inbound_def)
    ultimately show ?thesis by (simp add: valid_ServerKLESSConfig_def)
  qed
  show ?thesis
    using valid relay
    by (auto simp: valid_Config_def valid_KboardConfig_def valid_UpstreamConfig_def
        ShutdownGraceDuration_def ReportIntervalDuration_def DialTimeoutDuration_def
        HandshakeTimeoutDuration_def MaxHandshakeSkewDuration_def UsersRefreshIntervalDuration_def
        duration_const_defs intro!: good_duration_positive)
qed

theorem durations_positive_witness:
  "0 < ShutdownGraceDuration sample_config \<and> 0 < ReportIntervalDuration sample_kboard"
  using durations_positive [OF sample_validates] by simp

lemma UpstreamByName_loop_distinct:
  "distinct (map u_Name us) \<Longrightarrow>
     UpstreamByName_loop us name = Some u \<longleftrightarrow> u \<in> set us \<and> u_Name u = name"
  by (induction us) (auto simp: image_iff)

text \<open>C31: In a validated configuration looking an upstream up by name finds exactly the upstream of
  that name, and every TCP inbound's upstream is found.\<close>

theorem upstreams_resolve:
  assumes "Config_Validate E c0 = Inr c"
  shows "(\<forall>name u. UpstreamByName c name = Some u \<longleftrightarrow> u \<in> set (c_Upstreams c) \<and> u_Name u = name) \<and>
    (\<forall>i \<in> set (c_Inbounds c). i_Mode i = InboundModeTCP \<longrightarrow>
       (\<exists>u. UpstreamByName c (i_Upstream i) = Some u))"
proof -
  have valid: "valid_Config E c" using assms unfolding Config_Validate_iff by blast
  have modes: "InboundModeTCP \<noteq> InboundModeKLESSServer" by (simp add: inbound_mode_defs)
  have "distinct (map u_Name (c_Upstreams c))" using valid by (simp add: valid_Config_def)
  note found = UpstreamByName_loop_distinct [OF this]
  have "\<exists>u. UpstreamByName c (i_Upstream i) = Some u"
    if "i \<in> set (c_Inbounds c)" "i_Mode i = InboundModeTCP" for i
  proof -
    have "i_Upstream i \<in> u_Name ` set (c_Upstreams c)"
      using valid that modes by (auto simp: valid_Config_def valid_InboundConfig_def)
    then show ?thesis by (auto simp: UpstreamByName_def found)
  qed
  then show ?thesis by (simp add: UpstreamByName_def found)
qed

theorem upstreams_resolve_witness:
  "UpstreamByName sample_config ''primary'' = Some sample_upstream"
  using upstreams_resolve [OF sample_validates] by simp

section \<open>Capabilities\<close>

text \<open>What one name of a capability list stands for, and the union of a list of names.\<close>

definition capability_of :: "env \<Rightarrow> string \<Rightarrow> nat" where
  "capability_of E name0 =
     (let name = ToLower E (trim_space name0)
      in if name = [] then 0
         else if name = ''all'' then CapabilityAll (kless E)
         else (case capabilityForTransport E name of Inl _ \<Rightarrow> 0 | Inr c \<Rightarrow> c))"

definition union_mask :: "nat list \<Rightarrow> nat" where
  "union_mask cs = foldr or cs 0"

lemma mask_loop_union:
  "capabilityMaskForNames_loop E caps names = Inr m \<Longrightarrow> m = or caps (union_mask (map (capability_of E) names))"
proof (induction E caps names rule: capabilityMaskForNames_loop.induct)
  case (2 E caps name0 names)
  then show ?case
    by (auto simp: Let_def union_mask_def capability_of_def or.assoc split: if_splits sum.splits)
qed (simp add: union_mask_def)

text \<open>C32: The capability set of a validated relay is the union of the capabilities its list names (all
  of them for an empty list) and is never empty, so the error that \<open>serverConfig\<close> drops does
  not occur.\<close>

theorem relay_capabilities:
  assumes "valid_ServerKLESSConfig E allow k" and "CapabilityAll (kless E) \<noteq> 0"
  shows "\<exists>caps. CapabilityMask E k = Inr caps \<and> caps \<noteq> 0 \<and>
    caps = (if s_Capabilities k = [] then CapabilityAll (kless E)
            else union_mask (map (capability_of E) (s_Capabilities k)))"
proof -
  obtain caps where caps: "capabilityMaskForNames E (s_Capabilities k) = Inr caps"
    using assms(1) by (auto simp: valid_ServerKLESSConfig_def CapabilityMask_def is_ok_iff)
  show ?thesis
  proof (cases "s_Capabilities k = []")
    case True
    with caps assms(2) show ?thesis by (simp add: CapabilityMask_def capabilityMaskForNames_def)
  next
    case False
    with caps have loop: "capabilityMaskForNames_loop E 0 (s_Capabilities k) = Inr caps" and "caps \<noteq> 0"
      by (auto simp: capabilityMaskForNames_def split: sum.splits if_splits)
    with False caps mask_loop_union [OF loop] show ?thesis by (simp add: CapabilityMask_def)
  qed
qed

lemma sample_relay_valid: "valid_ServerKLESSConfig sample_env True (i_KLESS sample_relay_inbound)"
  using sample_valid by (auto simp: valid_Config_def valid_InboundConfig_def inbound_mode_defs
      allow_dynamic_def sample_kboard_def)

theorem relay_capabilities_witness:
  "\<exists>caps. CapabilityMask sample_env (i_KLESS sample_relay_inbound) = Inr caps \<and> caps \<noteq> 0"
  using relay_capabilities [OF sample_relay_valid] by (auto simp: sample_env_def sample_kless_def)

section \<open>Key material\<close>

lemma drop_blanks_append: "drop_blanks (xs @ ys) = drop_blanks xs @ drop_blanks ys"
  by (simp add: drop_blanks_def)

definition blank_char :: "char \<Rightarrow> bool" where
  "blank_char r \<longleftrightarrow> r \<in> {CHR '' '', CHR 0x09, CHR 0x0A, CHR 0x0D}"

lemma drop_blanks_Nil_iff: "drop_blanks w = [] \<longleftrightarrow> (\<forall>c \<in> set w. blank_char c)"
  by (auto simp: drop_blanks_def blank_char_def filter_empty_conv)

text \<open>White space made of key characters and blanks is blank, so trimming removes blanks only.\<close>

lemma white_seq_blank:
  assumes "w \<in> set white_seqs" and "\<forall>c \<in> set w. plain_char c \<or> blank_char c"
  shows "drop_blanks w = []"
  using assms by (auto simp: white_seqs_def plain_char_def blank_char_def drop_blanks_def)

lemma strip_seqs_drop_blanks:
  assumes "\<forall>w \<in> set ws. (\<forall>c \<in> set w. plain_char c \<or> blank_char c) \<longrightarrow> drop_blanks w = []"
    and "\<forall>c \<in> set s. plain_char c \<or> blank_char c"
  shows "drop_blanks (strip_seqs ws s) = drop_blanks s"
  using assms
proof (induction ws s rule: strip_seqs.induct)
  case (1 ws s)
  show ?case
  proof (cases "find (\<lambda>w. w \<noteq> [] \<and> prefix w s) ws")
    case None
    then show ?thesis by (simp add: strip_seqs.simps)
  next
    case (Some w)
    then have w: "w \<in> set ws" "prefix w s" by (auto dest: find_Some_mem)
    then obtain t where s: "s = w @ t" by (auto simp: prefix_def)
    with "1.prems" w(1) have "drop_blanks w = []" by auto
    moreover have "drop_blanks (strip_seqs ws (drop (length w) s)) = drop_blanks (drop (length w) s)"
      using "1.IH" [OF Some] "1.prems" s by simp
    moreover have "strip_seqs ws s = strip_seqs ws (drop (length w) s)"
      using Some by (simp add: strip_seqs.simps [of ws s])
    ultimately show ?thesis using s by (simp add: drop_blanks_append)
  qed
qed

lemma drop_blanks_rev: "drop_blanks (rev s) = rev (drop_blanks s)"
  by (simp add: drop_blanks_def rev_filter)

lemma drop_blanks_trim:
  assumes "\<forall>c \<in> set s. plain_char c \<or> blank_char c"
  shows "drop_blanks (trim_space s) = drop_blanks s"
proof -
  have left: "drop_blanks (trim_left s) = drop_blanks s"
    unfolding trim_left_def by (rule strip_seqs_drop_blanks) (use white_seq_blank assms in auto)
  have sub: "\<forall>c \<in> set (rev (trim_left s)). plain_char c \<or> blank_char c"
    using assms set_mono_suffix [OF strip_seqs_suffix [of white_seqs s]] by (auto simp: trim_left_def)
  have "drop_blanks (strip_seqs (map rev white_seqs) (rev (trim_left s))) = drop_blanks (rev (trim_left s))"
    by (rule strip_seqs_drop_blanks) (use white_seq_blank sub in \<open>auto simp: drop_blanks_rev\<close>)
  then show ?thesis
    by (simp add: trim_space_def trim_right_def drop_blanks_rev left)
qed

text \<open>C26: A key written in any of the four base64 encodings (standard or URL alphabet, padded or not)
  is decoded to its bytes, also when blanks, tabs or line breaks are spread over the text.\<close>

theorem key_roundtrip:
  assumes "drop_blanks text = b64_encode e bs"
  shows "decodeKey text = Inr bs"
proof -
  have "plain_char c \<or> blank_char c" if "c \<in> set text" for c
  proof (cases "blank_char c")
    case False
    then have "c \<in> set (b64_encode e bs)"
      using that unfolding assms [symmetric] by (auto simp: drop_blanks_def blank_char_def)
    then show ?thesis by (auto dest: b64_encode_plain)
  qed simp
  then have "drop_blanks (trim_space text) = b64_encode e bs" using drop_blanks_trim assms by simp
  then show ?thesis
    unfolding decodeKey_def by (simp only: try_encodings_agree [OF b64_encoding_cases])
qed

theorem key_roundtrip_witness:
  "decodeKey (CHR '' '' # b64_encode StdEncoding [1, 2] @ [CHR 0x0A]) = Inr [1, 2]"
proof (rule key_roundtrip)
  have plain: "\<forall>c \<in> set (b64_encode StdEncoding [1, 2]). plain_char c" by (blast dest: b64_encode_plain)
  have "drop_blanks (CHR '' '' # t @ [CHR 0x0A]) = drop_blanks t" for t by (simp add: drop_blanks_def)
  then show "drop_blanks (CHR '' '' # b64_encode StdEncoding [1, 2] @ [CHR 0x0A]) = b64_encode StdEncoding [1, 2]"
    by (simp only: drop_blanks_plain [OF plain])
qed

text \<open>A text that is none of the four encodings is reported with the error of the first one tried,
  unpadded standard base64, whatever the other three say.\<close>

theorem key_error:
  assumes "decodeKey text = Inl e"
  shows "b64_decode RawStdEncoding 0 (drop_blanks (trim_space text)) = Inl e"
  using assms by (rule decodeKey_error)

lemma bad_key_text: "decodeKey ''*'' = Inl (Corrupt 0)"
  by (simp add: decodeKey_def drop_blanks_def trim_space_all_plain plain_char_def b64_decode.simps)

theorem key_error_witness: "b64_decode RawStdEncoding 0 (drop_blanks (trim_space ''*'')) = Inl (Corrupt 0)"
  using key_error [OF bad_key_text] .

text \<open>C40: The top-level client secret may not be the server's public key, but a secret in the
  \<open>clients\<close> list may: the same text is refused in one place and accepted in the other.\<close>

theorem client_list_secret_unchecked:
  "\<exists>k. is_ok (ServerKLESSConfig_Validate sample_env False k) \<and>
     (\<exists>c \<in> set (s_Clients k). decodeKey (cc_ClientSecret c) = decodeKey (s_ServerSigningKey k)) \<and>
     \<not> is_ok (ServerKLESSConfig_Validate sample_env False
        (k\<lparr>s_ClientID := ''fixed'', s_ClientSecret := s_ServerSigningKey k\<rparr>))"
proof -
  define k where "k = (i_KLESS sample_relay_inbound)\<lparr>s_ServerSigningKey := key_text sample_public,
    s_ClientID := [], s_ClientSecret := [],
    s_Clients := [\<lparr>cc_ClientID = ''fixed'', cc_ClientSecret = key_text sample_public\<rparr>]\<rparr>"
  have pair: "good_key_pair (key_text sample_public) (key_text sample_private)"
    by (simp add: good_key_pair_def sample_public_def sample_private_def)
  have "valid_ServerKLESSConfig sample_env False k"
    using pair
    by (simp add: k_def valid_ServerKLESSConfig_def sample_relay_inbound_def empty_server_kless_def good_padding_def
        sample_env_def sample_kless_def CapabilityMask_def capabilityMaskForNames_def good_private_def
        valid_client_def good_secret_def)
  moreover have "normalize_server sample_env k = k"
    by (simp add: k_def normalize_server_def normalize_client_def ServerKLESSConfig_applyDefaults_def
        sample_relay_inbound_def empty_server_kless_def)
  ultimately have ok: "is_ok (ServerKLESSConfig_Validate sample_env False k)"
    using ServerKLESSConfig_Validate_iff [of sample_env False k k] by (simp add: is_ok_iff)
  have bad: "\<not> is_ok (ServerKLESSConfig_Validate sample_env False
        (k\<lparr>s_ClientID := ''fixed'', s_ClientSecret := s_ServerSigningKey k\<rparr>))"
    by (auto simp: is_ok_iff ServerKLESSConfig_Validate_iff valid_ServerKLESSConfig_def normalize_server_def
        ServerKLESSConfig_applyDefaults_def unmixed_def k_def)
  show ?thesis using ok bad by (intro exI [of _ k]) (simp add: k_def)
qed

section \<open>Durations\<close>

text \<open>C27: How the configuration reads a duration: an empty text is the default; the text Go prints for
  a duration is read as that duration when it is positive and refused when it is zero or negative,
  over the whole range of \<open>int64\<close>; and what is no duration is refused with the parser's error.\<close>

theorem duration_roundtrip:
  assumes "- (2 ^ 63) \<le> d" and "d < 2 ^ 63"
  shows "parseDuration [] fallback = Inr fallback \<and>
    parseDuration (Duration_String d) fallback = (if 0 < d then Inr d else Inl (Err ''must be positive'')) \<and>
    (time_ParseDuration text = Inl e \<longrightarrow> text \<noteq> [] \<longrightarrow> parseDuration text fallback = Inl e)"
proof -
  have "Duration_String d \<noteq> []"
    using ParseDuration_String [OF assms] by (auto simp: time_ParseDuration_def)
  then show ?thesis using ParseDuration_String [OF assms] by (auto simp: parseDuration_def)
qed

theorem duration_roundtrip_witness:
  "parseDuration (Duration_String DefaultDialTimeout) 0 = Inr DefaultDialTimeout \<and>
   parseDuration (Duration_String (- 5)) 7 = Inl (Err ''must be positive'')"
  using duration_roundtrip [of DefaultDialTimeout 0] duration_roundtrip [of "- 5" 7]
  by (simp add: duration_const_defs)

end
