(* ===== verification/Relay_Pipe.thy ===== *)
theory Relay_Pipe
  imports Copy_Pair
begin

text \<open>
  The proxy of a relay, \<open>(*serverRelay).pipe\<close> (\<open>internal/node/server_relay.go\<close>).  It keeps what
  the two copies return in a struct and in two variables; the map \<open>pair_of\<close> shows that it is the
  same machine as the proxy of \<open>Copy_Pair\<close>, step by step in both directions.
\<close>

record copyResult =
  cr_err :: "go_error option"

datatype relay_copier = RCopying | RCounted copyResult | RSent

record relay_pair =
  rp_up :: relay_copier
  rp_down :: relay_copier
  rp_errCh :: "copyResult list"
  rp_first :: "copyResult option"
  rp_second :: "copyResult option"
  rp_closed :: bool
  rp_metrics :: Metrics
  rp_got_up :: "(64 word \<times> go_error option) option"
  rp_got_down :: "(64 word \<times> go_error option) option"
  rp_order :: "bool list"

definition relay_pair_start :: "Metrics \<Rightarrow> relay_pair" where
  "relay_pair_start m =
     \<lparr>rp_up = RCopying, rp_down = RCopying, rp_errCh = [], rp_first = None, rp_second = None,
      rp_closed = False, rp_metrics = m, rp_got_up = None, rp_got_down = None, rp_order = []\<rparr>"

inductive relay_pipe_step :: "relay_pair \<Rightarrow> relay_pair \<Rightarrow> bool" where
  r_up_copied: "rp_up s = RCopying \<Longrightarrow>
     relay_pipe_step s (s\<lparr>rp_up := RCounted \<lparr>cr_err = normalizeCopyError err\<rparr>,
       rp_metrics := addUpBytes n (rp_metrics s), rp_got_up := Some (n, err)\<rparr>)"
| r_up_sent: "rp_up s = RCounted res \<Longrightarrow> length (rp_errCh s) < 2 \<Longrightarrow>
     relay_pipe_step s (s\<lparr>rp_up := RSent, rp_errCh := rp_errCh s @ [res], rp_order := rp_order s @ [True]\<rparr>)"
| r_down_copied: "rp_down s = RCopying \<Longrightarrow>
     relay_pipe_step s (s\<lparr>rp_down := RCounted \<lparr>cr_err = normalizeCopyError err\<rparr>,
       rp_metrics := addDownBytes n (rp_metrics s), rp_got_down := Some (n, err)\<rparr>)"
| r_down_sent: "rp_down s = RCounted res \<Longrightarrow> length (rp_errCh s) < 2 \<Longrightarrow>
     relay_pipe_step s (s\<lparr>rp_down := RSent, rp_errCh := rp_errCh s @ [res], rp_order := rp_order s @ [False]\<rparr>)"
| r_first: "rp_first s = None \<Longrightarrow> rp_errCh s = res # rest \<Longrightarrow>
     relay_pipe_step s (s\<lparr>rp_first := Some res, rp_errCh := rest, rp_closed := True\<rparr>)"
| r_second: "rp_first s = Some first \<Longrightarrow> rp_second s = None \<Longrightarrow> rp_errCh s = res # rest \<Longrightarrow>
     relay_pipe_step s (s\<lparr>rp_second := Some res, rp_errCh := rest\<rparr>)"

definition relay_pipe_result :: "relay_pair \<Rightarrow> go_error option option" where
  "relay_pipe_result s =
     (case (rp_first s, rp_second s) of
        (Some first, Some second) \<Rightarrow> Some (if cr_err first \<noteq> None then cr_err first else cr_err second)
      | _ \<Rightarrow> None)"

section \<open>The same machine\<close>

fun copier_of :: "relay_copier \<Rightarrow> copier" where
  "copier_of RCopying = Copying"
| "copier_of (RCounted res) = Counted (cr_err res)"
| "copier_of RSent = Sent"

definition taken :: "relay_pair \<Rightarrow> copyResult list" where
  "taken s =
     (case rp_first s of
        None \<Rightarrow> []
      | Some r \<Rightarrow> (case rp_second s of None \<Rightarrow> [r] | Some r' \<Rightarrow> [r, r']))"

definition pair_of :: "relay_pair \<Rightarrow> pair_state" where
  "pair_of s =
     \<lparr>up = copier_of (rp_up s), down = copier_of (rp_down s), channel = map cr_err (rp_errCh s),
      received = map cr_err (taken s), closed = rp_closed s, counters = rp_metrics s,
      got_up = rp_got_up s, got_down = rp_got_down s, send_order = rp_order s\<rparr>"

text \<open>The history of a run, as in \<open>Copy_Pair\<close>.\<close>

definition relay_pipe_answers :: "relay_pair \<Rightarrow> copy_outcome option" where
  "relay_pipe_answers s = answers_of (rp_got_up s) (rp_got_down s) (rp_order s)"

definition in_order :: "relay_pair \<Rightarrow> bool" where
  "in_order s \<longleftrightarrow> (rp_first s = None \<longrightarrow> rp_second s = None)"

lemma taken_updates [simp]:
  "taken (s\<lparr>rp_up := c\<rparr>) = taken s" "taken (s\<lparr>rp_down := c\<rparr>) = taken s"
  "taken (s\<lparr>rp_errCh := ch\<rparr>) = taken s" "taken (s\<lparr>rp_metrics := m\<rparr>) = taken s"
  "taken (s\<lparr>rp_got_up := g\<rparr>) = taken s" "taken (s\<lparr>rp_got_down := g\<rparr>) = taken s" "taken (s\<lparr>rp_order := bs\<rparr>) = taken s"
  by (simp_all add: taken_def split: option.splits)

lemma pair_of_start [simp]: "pair_of (relay_pair_start m) = pair_start m"
  by (simp add: pair_of_def relay_pair_start_def pair_start_def taken_def)

lemma in_order_start [simp]: "in_order (relay_pair_start m)"
  by (simp add: in_order_def relay_pair_start_def)

lemma in_order_step: "relay_pipe_step s t \<Longrightarrow> in_order s \<Longrightarrow> in_order t"
  by (induction rule: relay_pipe_step.induct) (simp_all add: in_order_def)

lemma relay_pipe_result_eq: "in_order s \<Longrightarrow> relay_pipe_result s = pipe_result (pair_of s)"
  by (auto simp: relay_pipe_result_def pipe_result_def pair_of_def taken_def in_order_def split: option.splits)

lemma relay_step_forward:
  assumes "relay_pipe_step s t" and "in_order s"
  shows "pipe_step (pair_of s) (pair_of t)"
  using assms
proof (induction rule: relay_pipe_step.induct)
  case (r_up_copied s n err)
  then show ?case using pipe_step.up_copied [of "pair_of s" n err] by (simp add: pair_of_def)
next
  case (r_up_sent s res)
  then show ?case
    using pipe_step.up_sent [of "pair_of s" "cr_err res"] by (simp add: pair_of_def channel_capacity_def)
next
  case (r_down_copied s n err)
  then show ?case using pipe_step.down_copied [of "pair_of s" n err] by (simp add: pair_of_def)
next
  case (r_down_sent s res)
  then show ?case
    using pipe_step.down_sent [of "pair_of s" "cr_err res"] by (simp add: pair_of_def channel_capacity_def)
next
  case (r_first s res rest)
  then show ?case
    using pipe_step.first_received [of "pair_of s" "cr_err res" "map cr_err rest"]
    by (simp add: pair_of_def taken_def in_order_def)
next
  case (r_second s first res rest)
  then show ?case
    using pipe_step.second_received [of "pair_of s" "cr_err first" "cr_err res" "map cr_err rest"]
    by (simp add: pair_of_def taken_def)
qed

lemma copier_of_eqs [simp]:
  "copier_of c = Copying \<longleftrightarrow> c = RCopying" "copier_of c = Sent \<longleftrightarrow> c = RSent"
  "copier_of c = Counted err \<longleftrightarrow> c = RCounted \<lparr>cr_err = err\<rparr>"
  by (cases c; auto)+

lemma taken_eqs:
  "taken s = [] \<longleftrightarrow> rp_first s = None"
  "map cr_err (taken s) = [e] \<longleftrightarrow> rp_first s = Some \<lparr>cr_err = e\<rparr> \<and> rp_second s = None"
  by (auto simp: taken_def split: option.splits)

lemma pair_of_sel:
  "up (pair_of s) = copier_of (rp_up s)" "down (pair_of s) = copier_of (rp_down s)"
  "channel (pair_of s) = map cr_err (rp_errCh s)" "received (pair_of s) = map cr_err (taken s)"
  by (simp_all add: pair_of_def)

lemma relay_step_backward:
  assumes "pipe_step (pair_of s) p" and "in_order s"
  shows "\<exists>t. relay_pipe_step s t \<and> pair_of t = p"
  using assms(1)
proof (cases rule: pipe_step.cases)
  case (up_copied n err)
  then have "rp_up s = RCopying" by (simp add: pair_of_sel)
  from relay_pipe_step.r_up_copied [OF this] show ?thesis
    using up_copied by (intro exI conjI) (assumption, simp add: pair_of_def)
next
  case (up_sent err)
  then have "rp_up s = RCounted \<lparr>cr_err = err\<rparr>" "length (rp_errCh s) < 2"
    by (simp_all add: pair_of_sel channel_capacity_def)
  from relay_pipe_step.r_up_sent [OF this] show ?thesis
    using up_sent by (intro exI conjI) (assumption, simp add: pair_of_def)
next
  case (down_copied n err)
  then have "rp_down s = RCopying" by (simp add: pair_of_sel)
  from relay_pipe_step.r_down_copied [OF this] show ?thesis
    using down_copied by (intro exI conjI) (assumption, simp add: pair_of_def)
next
  case (down_sent err)
  then have "rp_down s = RCounted \<lparr>cr_err = err\<rparr>" "length (rp_errCh s) < 2"
    by (simp_all add: pair_of_sel channel_capacity_def)
  from relay_pipe_step.r_down_sent [OF this] show ?thesis
    using down_sent by (intro exI conjI) (assumption, simp add: pair_of_def)
next
  case (first_received err rest)
  then obtain res rest' where ch: "rp_errCh s = res # rest'" "err = cr_err res" "rest = map cr_err rest'"
    and none: "rp_first s = None" by (auto simp: pair_of_sel taken_eqs)
  with assms(2) first_received(1) show ?thesis
    using relay_pipe_step.r_first [OF none ch(1)] by (auto simp: pair_of_def taken_def in_order_def)
next
  case (second_received first err rest)
  then obtain res rest' where ch: "rp_errCh s = res # rest'" "err = cr_err res" "rest = map cr_err rest'"
    and one: "rp_first s = Some \<lparr>cr_err = first\<rparr>" "rp_second s = None" by (auto simp: pair_of_sel taken_eqs)
  with second_received(1) show ?thesis
    using relay_pipe_step.r_second [OF one ch(1)] by (auto simp: pair_of_def taken_def)
qed

lemma relay_reachable_forward:
  assumes "relay_pipe_step\<^sup>*\<^sup>* (relay_pair_start m) s"
  shows "pipe_step\<^sup>*\<^sup>* (pair_start m) (pair_of s) \<and> in_order s"
  using assms
proof (induction rule: rtranclp_induct)
  case (step s t)
  then show ?case by (blast intro: rtranclp.rtrancl_into_rtrancl relay_step_forward in_order_step)
qed simp

lemma relay_reachable_backward:
  assumes "pipe_step\<^sup>*\<^sup>* (pair_start m) p"
  shows "\<exists>s. relay_pipe_step\<^sup>*\<^sup>* (relay_pair_start m) s \<and> pair_of s = p"
  using assms
proof (induction rule: rtranclp_induct)
  case base
  show ?case by (intro exI [of _ "relay_pair_start m"]) simp
next
  case (step p q)
  then obtain s where s: "relay_pipe_step\<^sup>*\<^sup>* (relay_pair_start m) s" "pair_of s = p" by blast
  then have "in_order s" by (simp add: relay_reachable_forward)
  with step.hyps(2) s(2) obtain t where "relay_pipe_step s t" "pair_of t = q"
    using relay_step_backward by blast
  with s(1) show ?case by (blast intro: rtranclp.rtrancl_into_rtrancl)
qed

lemma pair_of_observed:
  "counters (pair_of s) = rp_metrics s" "pipe_answers (pair_of s) = relay_pipe_answers s"
  by (simp_all add: pair_of_def pipe_answers_def relay_pipe_answers_def)

lemma relay_pipe_run_history:
  assumes "relay_pipe_step\<^sup>*\<^sup>* (relay_pair_start m) s" and "relay_pipe_result s = Some r"
  shows "\<exists>out. relay_pipe_answers s = Some out \<and> pipe_run out m = (r, rp_metrics s)"
proof -
  have "pipe_step\<^sup>*\<^sup>* (pair_start m) (pair_of s)" "pipe_result (pair_of s) = Some r"
    using relay_reachable_forward [OF assms(1)] relay_pipe_result_eq assms(2) by auto
  from pipe_run_history [OF this] show ?thesis by (simp only: pair_of_observed)
qed

lemma relay_pipe_run_reachable:
  "\<exists>s. relay_pipe_step\<^sup>*\<^sup>* (relay_pair_start m) s \<and> relay_pipe_answers s = Some out \<and>
       relay_pipe_result s = Some (fst (pipe_run out m)) \<and> rp_metrics s = snd (pipe_run out m)"
proof -
  obtain p where p: "pipe_step\<^sup>*\<^sup>* (pair_start m) p" "pipe_answers p = Some out"
      "pipe_result p = Some (fst (pipe_run out m))" "counters p = snd (pipe_run out m)"
    using pipe_run_reachable by blast
  then obtain s where s: "relay_pipe_step\<^sup>*\<^sup>* (relay_pair_start m) s" "pair_of s = p"
    using relay_reachable_backward by blast
  moreover have "relay_pipe_result s = pipe_result p"
    using relay_pipe_result_eq relay_reachable_forward [OF s(1)] s(2) by blast
  ultimately show ?thesis using p pair_of_observed [of s] by auto
qed

end
