(* ===== verification/Proxy_Context.thy ===== *)
theory Proxy_Context
  imports Copy_Pair
begin

text \<open>
  The proxy with its context: before the two copies start, \<open>handleConnection\<close> and
  \<open>handleTCPConnect\<close> register a function that closes both connections when the context ends
  (\<open>context.AfterFunc\<close>), and take it back when the proxy has returned.  \<open>Copy_Pair\<close> lets a copy
  return at any time; here a copy returns when its connections do something or are closed,
  and may otherwise wait for ever.
\<close>

section \<open>State and steps\<close>

text \<open>
  What the outside does: how each copy ends when it is left alone (\<open>None\<close>: it never ends), and
  whether the context ends.
\<close>

record proxy_env =
  end_up :: "(64 word \<times> go_error option) option"
  end_down :: "(64 word \<times> go_error option) option"
  ctx_ends :: bool

record guarded =
  gp_pair :: pair_state
  gp_ctx_done :: bool
  gp_after_run :: bool
  gp_stopped :: bool
  gp_conns_closed :: bool

definition guarded_start :: "Metrics \<Rightarrow> guarded" where
  "guarded_start m =
     \<lparr>gp_pair = pair_start m, gp_ctx_done = False, gp_after_run = False, gp_stopped = False,
      gp_conns_closed = False\<rparr>"

text \<open>
  The first two rules are the end of a copy; \<open>g_pipe\<close> is any other step of the proxy, among them
  the one that closes the connections after the first result.
\<close>

inductive guarded_step :: "proxy_env \<Rightarrow> guarded \<Rightarrow> guarded \<Rightarrow> bool" for e :: proxy_env where
  g_up_copied: "up (gp_pair s) = Copying \<Longrightarrow> gp_conns_closed s \<or> end_up e = Some (n, err) \<Longrightarrow>
     guarded_step e s
       (s\<lparr>gp_pair := (gp_pair s)\<lparr>up := Counted (normalizeCopyError err),
          counters := addUpBytes n (counters (gp_pair s)), got_up := Some (n, err)\<rparr>\<rparr>)"
| g_down_copied: "down (gp_pair s) = Copying \<Longrightarrow> gp_conns_closed s \<or> end_down e = Some (n, err) \<Longrightarrow>
     guarded_step e s
       (s\<lparr>gp_pair := (gp_pair s)\<lparr>down := Counted (normalizeCopyError err),
          counters := addDownBytes n (counters (gp_pair s)), got_down := Some (n, err)\<rparr>\<rparr>)"
| g_pipe: "pipe_step (gp_pair s) p \<Longrightarrow> up p = Copying \<longleftrightarrow> up (gp_pair s) = Copying \<Longrightarrow>
     down p = Copying \<longleftrightarrow> down (gp_pair s) = Copying \<Longrightarrow>
     guarded_step e s (s\<lparr>gp_pair := p, gp_conns_closed := (gp_conns_closed s \<or> closed p)\<rparr>)"
| g_context: "ctx_ends e \<Longrightarrow> \<not> gp_ctx_done s \<Longrightarrow> guarded_step e s (s\<lparr>gp_ctx_done := True\<rparr>)"
| g_after: "gp_ctx_done s \<Longrightarrow> \<not> gp_stopped s \<Longrightarrow> \<not> gp_after_run s \<Longrightarrow>
     guarded_step e s (s\<lparr>gp_after_run := True, gp_conns_closed := True\<rparr>)"
| g_stop: "pipe_result (gp_pair s) \<noteq> None \<Longrightarrow> \<not> gp_stopped s \<Longrightarrow>
     guarded_step e s (s\<lparr>gp_stopped := True\<rparr>)"

section \<open>Invariant and measure\<close>

definition guarded_inv :: "proxy_env \<Rightarrow> Metrics \<Rightarrow> guarded \<Rightarrow> bool" where
  "guarded_inv e m s \<longleftrightarrow>
     pipe_step\<^sup>*\<^sup>* (pair_start m) (gp_pair s) \<and>
     (gp_conns_closed s \<longleftrightarrow> closed (gp_pair s) \<or> gp_after_run s) \<and>
     (gp_after_run s \<longrightarrow> gp_ctx_done s) \<and> (gp_ctx_done s \<longrightarrow> ctx_ends e) \<and>
     (gp_stopped s \<longrightarrow> pipe_result (gp_pair s) \<noteq> None)"

text \<open>A proxy that has returned does not go on.\<close>

lemma pipe_result_final:
  assumes "pair_inv s" and "pipe_result s \<noteq> None" and "pipe_step s t"
  shows False
proof -
  obtain r where "pipe_result s = Some r" using assms(2) by blast
  with pipe_result_done [OF assms(1)] have "up s = Sent" "down s = Sent" "channel s = []" by blast+
  with assms(3) show False by (cases rule: pipe_step.cases) auto
qed

lemma closed_kept: "pipe_step s t \<Longrightarrow> closed s \<Longrightarrow> closed t"
  by (induction rule: pipe_step.induct) auto

lemma guarded_inv_start: "guarded_inv e m (guarded_start m)"
  by (simp add: guarded_inv_def guarded_start_def pair_start_def)

text \<open>A step of the pair inside.\<close>

lemma guarded_inv_pair:
  assumes inv: "guarded_inv e m s" and "pipe_step (gp_pair s) p"
  shows "guarded_inv e m (s\<lparr>gp_pair := p, gp_conns_closed := (gp_conns_closed s \<or> closed p)\<rparr>)"
proof -
  have reach: "pipe_step\<^sup>*\<^sup>* (pair_start m) (gp_pair s)" using inv by (simp add: guarded_inv_def)
  then have "pipe_result (gp_pair s) = None"
    using pipe_result_final [OF pipe.reachable [OF reach] _ assms(2)] by blast
  with inv have "\<not> gp_stopped s" by (simp add: guarded_inv_def)
  with inv assms(2) closed_kept [OF assms(2)] rtranclp.rtrancl_into_rtrancl [OF reach assms(2)]
  show ?thesis by (auto simp: guarded_inv_def)
qed

lemma guarded_inv_step:
  assumes "guarded_step e s t" and inv: "guarded_inv e m s"
  shows "guarded_inv e m t"
  using assms(1)
proof (cases rule: guarded_step.cases)
  case (g_up_copied n err)
  from guarded_inv_pair [OF inv up_copied [OF g_up_copied(2), where err = err and n = n]] g_up_copied inv
  show ?thesis by (simp add: guarded_inv_def)
next
  case (g_down_copied n err)
  from guarded_inv_pair [OF inv down_copied [OF g_down_copied(2), where err = err and n = n]] g_down_copied inv
  show ?thesis by (simp add: guarded_inv_def)
next
  case (g_pipe p)
  then show ?thesis using guarded_inv_pair [OF inv] by simp
qed (use inv in \<open>auto simp: guarded_inv_def\<close>)

definition guarded_work :: "guarded \<Rightarrow> nat" where
  "guarded_work s =
     pair_work (gp_pair s) + (if gp_ctx_done s then 0 else 1) + (if gp_after_run s then 0 else 1) +
     (if gp_stopped s then 0 else 1)"

lemma guarded_work_step: "guarded_step e s t \<Longrightarrow> guarded_work t < guarded_work s"
proof (induction rule: guarded_step.induct)
  case (g_pipe s p)
  from pair_work_step [OF g_pipe(1)] show ?case by (simp add: guarded_work_def)
qed (simp_all add: guarded_work_def pair_work_def)

interpretation guarded: terminating_system "guarded_step e" "guarded_start m" "guarded_inv e m" guarded_work
  for e m
  by unfold_locales (auto simp: guarded_inv_start guarded_work_step intro: guarded_inv_step)

section \<open>Progress\<close>

text \<open>
  The proxy does not return only if it rightly waits: neither side ends its copy and the
  context stays alive.
\<close>

lemma pipe_step_cases_pair:
  assumes "pair_inv p" and "pipe_result p = None" and "\<not> (up p = Copying \<and> down p = Copying)"
    and "closed p \<longrightarrow> up p \<noteq> Copying \<and> down p \<noteq> Copying"
  shows "\<exists>q. pipe_step p q \<and> (up q = Copying \<longleftrightarrow> up p = Copying) \<and> (down q = Copying \<longleftrightarrow> down p = Copying)"
proof -
  have counts: "length (channel p) + length (received p) = sends (up p) + sends (down p)"
    and closed: "closed p \<longleftrightarrow> received p \<noteq> []" using assms(1) by (auto simp: pair_inv_def)
  consider err where "up p = Counted err" | err where "down p = Counted err"
    | "up p = Sent" "down p = Copying" | "up p = Copying" "down p = Sent" | "up p = Sent" "down p = Sent"
    using assms(3) by (cases "up p"; cases "down p") auto
  then show ?thesis
  proof cases
    case 1
    from up_sent [OF 1 sender_not_blocked [OF assms(1)]] 1 show ?thesis by fastforce
  next
    case 2
    from down_sent [OF 2 sender_not_blocked [OF assms(1)]] 2 show ?thesis by fastforce
  next
    case 3
    with closed assms(4) have "received p = []" by auto
    moreover from this counts 3 obtain err rest where "channel p = err # rest" by (cases "channel p") auto
    ultimately show ?thesis using first_received by fastforce
  next
    case 4
    with closed assms(4) have "received p = []" by auto
    moreover from this counts 4 obtain err rest where "channel p = err # rest" by (cases "channel p") auto
    ultimately show ?thesis using first_received by fastforce
  next
    case 5
    from assms(1,2) 5 have "\<exists>q. pipe_step p q" by (intro pipe_progress) auto
    then obtain q where q: "pipe_step p q" by blast
    then have "up q \<noteq> Copying \<and> down q \<noteq> Copying" using 5 by (cases rule: pipe_step.cases) auto
    with q 5 show ?thesis by auto
  qed
qed

lemma guarded_progress:
  assumes inv: "guarded_inv e m s" and stuck: "\<forall>t. \<not> guarded_step e s t"
  shows "(pipe_result (gp_pair s) \<noteq> None \<and> up (gp_pair s) = Sent \<and> down (gp_pair s) = Sent \<and>
      gp_conns_closed s \<and> gp_stopped s) \<or>
    (pipe_result (gp_pair s) = None \<and> up (gp_pair s) = Copying \<and> down (gp_pair s) = Copying \<and>
      \<not> gp_conns_closed s \<and> end_up e = None \<and> end_down e = None \<and> \<not> ctx_ends e)"
proof (cases "pipe_result (gp_pair s)")
  case None
  have pair: "pair_inv (gp_pair s)" using inv pipe.reachable by (auto simp: guarded_inv_def)
  have not_stopped: "\<not> gp_stopped s" using inv None by (auto simp: guarded_inv_def)
  have wait: "(up (gp_pair s) = Copying \<longrightarrow> \<not> gp_conns_closed s \<and> end_up e = None) \<and>
      (down (gp_pair s) = Copying \<longrightarrow> \<not> gp_conns_closed s \<and> end_down e = None)"
  proof (intro conjI impI)
    show "\<not> gp_conns_closed s" if "up (gp_pair s) = Copying"
      using stuck g_up_copied [OF that, where e = e] by blast
    show "\<not> gp_conns_closed s" if "down (gp_pair s) = Copying"
      using stuck g_down_copied [OF that, where e = e] by blast
    show "end_up e = None" if "up (gp_pair s) = Copying"
      using stuck g_up_copied [OF that, where e = e] by (cases "end_up e") auto
    show "end_down e = None" if "down (gp_pair s) = Copying"
      using stuck g_down_copied [OF that, where e = e] by (cases "end_down e") auto
  qed
  have "closed (gp_pair s) \<longrightarrow> up (gp_pair s) \<noteq> Copying \<and> down (gp_pair s) \<noteq> Copying"
    using wait inv by (auto simp: guarded_inv_def)
  then have both: "up (gp_pair s) = Copying" "down (gp_pair s) = Copying"
    using pipe_step_cases_pair [OF pair None] stuck g_pipe by blast+
  have "\<not> gp_ctx_done s" using stuck g_after not_stopped wait both inv by (auto simp: guarded_inv_def)
  then have "\<not> ctx_ends e" using stuck g_context by blast
  with both wait None show ?thesis by blast
next
  case (Some r)
  have "pair_inv (gp_pair s)" using inv pipe.reachable by (auto simp: guarded_inv_def)
  from pipe_result_done [OF this Some] have "up (gp_pair s) = Sent" "down (gp_pair s) = Sent" "gp_conns_closed s"
    using inv by (auto simp: guarded_inv_def)
  moreover have "gp_stopped s" using stuck g_stop Some by blast
  ultimately show ?thesis using Some by blast
qed

end
