(* ===== verification/Udp_Association.thy ===== *)
theory Udp_Association
  imports Server_Relay_Facts Transition_Systems
begin

text \<open>
  \<open>(*serverRelay).pipeUDPAssociate\<close> (\<open>internal/node/server_relay.go\<close>) as it runs: the goroutine
  from the client to the network, the one back, and the \<open>select\<close> that waits for one of them or for
  the context, closes both sockets and, in the first case, waits for the other.

  A step is one round of a goroutine's loop, one send into the channel, or one receive.  The
  ghost lists \<open>read_in\<close> and \<open>read_out\<close> hold what the goroutines have read so far.  The main
  lemma: whatever the interleaving, what the association returns, counts and records is what the
  function \<open>pipeUDPAssociate\<close> gives for these lists.
\<close>

section \<open>State and steps\<close>

datatype udp_thread = InLoop | Leaving "go_error option" | Left

record udp_state =
  unread_in :: "udp_input list"
  unread_out :: "udp_output list"
  read_in :: "udp_input list"
  read_out :: "udp_output list"
  up_thread :: udp_thread
  down_thread :: udp_thread
  seen_targets :: "string set"
  udp_world :: relay_world
  udp_errCh :: "go_error option list"
  udp_got :: "go_error option list"
  from_up :: "bool list"
  udp_closed :: bool
  udp_ret :: "go_error option option"

definition udp_start :: "conn_env \<Rightarrow> relay_world \<Rightarrow> udp_state" where
  "udp_start c w =
     \<lparr>unread_in = udp_inputs c, unread_out = udp_outputs c, read_in = [], read_out = [],
      up_thread = InLoop, down_thread = InLoop, seen_targets = {}, udp_world = w, udp_errCh = [],
      udp_got = [], from_up = [], udp_closed = False, udp_ret = None\<rparr>"

definition thread_after :: "go_error option option \<Rightarrow> udp_thread" where
  "thread_after res = (case res of None \<Rightarrow> InLoop | Some err \<Rightarrow> Leaving err)"

text \<open>\<open>from_up\<close> is a ghost, too: who sent the entries of the channel and of what was received.\<close>

inductive udp_step :: "env \<Rightarrow> relay_lib \<Rightarrow> conn_env \<Rightarrow> serverRelay \<Rightarrow> string \<Rightarrow> udp_state \<Rightarrow> udp_state \<Rightarrow> bool"
  for E :: env and L :: relay_lib and c :: conn_env and r :: serverRelay and clientID :: string
where
  up_round: "up_thread s = InLoop \<Longrightarrow> unread_in s = x # rest \<Longrightarrow>
     udp_up_loop E L c r clientID [x] (seen_targets s, udp_world s) = (res, seen, w) \<Longrightarrow>
     udp_step E L c r clientID s
       (s\<lparr>unread_in := rest, read_in := read_in s @ [x], up_thread := thread_after res,
          seen_targets := seen, udp_world := w\<rparr>)"
| up_read_closed: "up_thread s = InLoop \<Longrightarrow> udp_closed s \<Longrightarrow>
     udp_step E L c r clientID s (s\<lparr>up_thread := Leaving (normalizeCopyError (Some NetClosed))\<rparr>)"
| up_sends: "up_thread s = Leaving err \<Longrightarrow> length (udp_errCh s) < 2 \<Longrightarrow>
     udp_step E L c r clientID s
       (s\<lparr>up_thread := Left, udp_errCh := udp_errCh s @ [err], from_up := from_up s @ [True]\<rparr>)"
| down_round: "down_thread s = InLoop \<Longrightarrow> unread_out s = y # rest \<Longrightarrow>
     udp_down_loop [y] (udp_world s) = (res, w) \<Longrightarrow>
     udp_step E L c r clientID s
       (s\<lparr>unread_out := rest, read_out := read_out s @ [y], down_thread := thread_after res, udp_world := w\<rparr>)"
| down_read_closed: "down_thread s = InLoop \<Longrightarrow> udp_closed s \<Longrightarrow>
     udp_step E L c r clientID s (s\<lparr>down_thread := Leaving (normalizeCopyError (Some NetClosed))\<rparr>)"
| down_sends: "down_thread s = Leaving err \<Longrightarrow> length (udp_errCh s) < 2 \<Longrightarrow>
     udp_step E L c r clientID s
       (s\<lparr>down_thread := Left, udp_errCh := udp_errCh s @ [err], from_up := from_up s @ [False]\<rparr>)"
| select_result: "udp_got s = [] \<Longrightarrow> udp_ret s = None \<Longrightarrow> udp_errCh s = err # rest \<Longrightarrow>
     udp_step E L c r clientID s
       (s\<lparr>udp_got := [err], udp_errCh := rest, udp_closed := True,
          udp_world := emit [Closed UDPSocket, Closed SecureConn] (udp_world s)\<rparr>)"
| second_result: "udp_got s = [err] \<Longrightarrow> udp_ret s = None \<Longrightarrow> udp_errCh s = second # rest \<Longrightarrow>
     udp_step E L c r clientID s
       (s\<lparr>udp_got := [err, second], udp_errCh := rest,
          udp_ret := Some (if err \<noteq> None then err else second)\<rparr>)"
| select_cancelled: "udp_got s = [] \<Longrightarrow> udp_ret s = None \<Longrightarrow> udp_cancelled c \<Longrightarrow>
     udp_step E L c r clientID s
       (s\<lparr>udp_closed := True, udp_ret := Some None,
          udp_world := emit [Closed UDPSocket, Closed SecureConn] (udp_world s)\<rparr>)"

section \<open>The loops, round by round\<close>

lemma udp_up_loop_append:
  "udp_up_loop E L c r i ins sw = (None, sw') \<Longrightarrow>
     udp_up_loop E L c r i (ins @ later) sw = udp_up_loop E L c r i later sw'"
proof (induction E L c r i ins sw rule: udp_up_loop.induct)
  case (3 E L c r i address payload n write_err rest seen w)
  then show ?case by (simp add: Let_def split: sum.splits option.splits)
qed simp_all

lemma udp_down_loop_append:
  "udp_down_loop outs w = (None, w') \<Longrightarrow> udp_down_loop (outs @ later) w = udp_down_loop later w'"
proof (induction outs w rule: udp_down_loop.induct)
  case (3 addr payload write_err rest w)
  then show ?case by (simp add: Let_def split: option.splits)
qed simp_all

text \<open>What the relay of one direction can see of the other is nothing but counters.\<close>

lemma record_access_congr:
  assumes "w_store w = w_store w'" and "w_access w = w_access w'"
  shows "w_access (record_access E c r i t n w) = w_access (record_access E c r i t n w')"
  using assms by (simp add: record_access_def Let_def split: prod.splits)

lemma recordUDPAccess_congr:
  assumes "w_store w = w_store w'" and "w_access w = w_access w'"
    and "recordUDPAccess E L c r i t (seen, w) = (seen1, w1)"
    and "recordUDPAccess E L c r i t (seen, w') = (seen1', w1')"
  shows "seen1' = seen1 \<and> w_store w1' = w_store w1 \<and> w_access w1' = w_access w1 \<and>
    w_store w1 = w_store w \<and> w_metrics w1 = w_metrics w \<and> w_metrics w1' = w_metrics w'"
  using assms record_access_congr [OF assms(1,2), of E c r i t "''udp''"]
  by (auto simp: recordUDPAccess_def Let_def split: if_splits)

lemma add_zero_bytes [simp]: "addUpBytes 0 m = m" "addDownBytes 0 m = m"
  by (simp_all add: addUpBytes_def addDownBytes_def)

lemma add_bytes_add:
  "addUpBytes a (addUpBytes b m) = addUpBytes (b + a) m"
  "addDownBytes a (addDownBytes b m) = addDownBytes (b + a) m"
  "addUpBytes a (addDownBytes b m) = addDownBytes b (addUpBytes a m)"
  by (simp_all add: addUpBytes_def addDownBytes_def add.assoc)

lemma count_metrics:
  "w_metrics (count_up n w) = addUpBytes (if n > 0 then word_of_int n else 0) (w_metrics w)"
  "w_metrics (count_down k w) = addDownBytes (if k > 0 then word_of_nat k else 0) (w_metrics w)"
  by (simp_all add: count_up_def count_down_def)

lemma udp_up_loop_congr:
  "udp_up_loop E L c r i ins (seen, w) = (res, seen1, w1) \<Longrightarrow>
     w_store w1 = w_store w \<and>
     (\<exists>u. \<forall>w'. w_store w' = w_store w \<longrightarrow> w_access w' = w_access w \<longrightarrow>
        (\<exists>w1'. udp_up_loop E L c r i ins (seen, w') = (res, seen1, w1') \<and> w_store w1' = w_store w \<and>
           w_access w1' = w_access w1 \<and> w_metrics w1' = addUpBytes u (w_metrics w')))"
proof (induction E L c r i ins "(seen, w)" arbitrary: seen w rule: udp_up_loop.induct)
  case (1 E L c r i seen w)
  then show ?case by (auto intro: exI [of _ 0])
next
  case (2 E L c r i err rest seen w)
  then show ?case by (auto intro: exI [of _ 0])
next
  case (3 E L c r i address payload n write_err rest seen w)
  show ?case
  proof (cases "resolveUDPAddress L c address")
    case (Inl err)
    with "3.prems" show ?thesis by (auto intro: exI [of _ 0])
  next
    case (Inr target)
    define b :: "64 word" where "b = (if n > 0 then word_of_int n else 0)"
    define after where "after w = count_up n (emit [SentUDP target payload] w)" for w
    have after: "w_store (after w) = w_store w" "w_access (after w) = w_access w"
      "w_metrics (after w) = addUpBytes b (w_metrics w)" for w
      by (simp_all add: after_def count_metrics b_def)
    show ?thesis
    proof (cases write_err)
      case (Some err)
      with "3.prems" Inr show ?thesis
        by (auto simp: after_def [symmetric] after intro: exI [of _ b])
    next
      case None
      define rec where "rec w = recordUDPAccess E L c r i address (seen, after w)" for w
      obtain seen2 w2 where rec: "rec w = (seen2, w2)" by (cases "rec w")
      then have rest: "udp_up_loop E L c r i rest (seen2, w2) = (res, seen1, w1)"
        using "3.prems" Inr None by (simp add: after_def [symmetric] rec_def)
      have congr: "\<exists>w2'. rec w' = (seen2, w2') \<and> w_store w2' = w_store w2 \<and> w_access w2' = w_access w2 \<and>
          w_store w2 = w_store w \<and> w_metrics w2' = addUpBytes b (w_metrics w')"
        if "w_store w' = w_store w" "w_access w' = w_access w" for w'
      proof -
        obtain seen2' w2' where "rec w' = (seen2', w2')" by (cases "rec w'")
        with recordUDPAccess_congr [OF _ _ rec [unfolded rec_def], of "after w'" seen2' w2'] that after
        show ?thesis by (simp add: rec_def)
      qed
      have "w_store w2 = w_store w" using congr [of w] by blast
      moreover from "3.hyps" [OF Inr refl None rec [unfolded rec_def after_def] rest]
      have "w_store w1 = w_store w2" by blast
      moreover from "3.hyps" [OF Inr refl None rec [unfolded rec_def after_def] rest]
      obtain u where u: "\<forall>w'. w_store w' = w_store w2 \<longrightarrow> w_access w' = w_access w2 \<longrightarrow>
        (\<exists>w1'. udp_up_loop E L c r i rest (seen2, w') = (res, seen1, w1') \<and> w_store w1' = w_store w2 \<and>
           w_access w1' = w_access w1 \<and> w_metrics w1' = addUpBytes u (w_metrics w'))" by blast
      have "\<exists>w1'. udp_up_loop E L c r i (ReadDatagram address payload (n, write_err) # rest) (seen, w') = (res, seen1, w1') \<and>
          w_store w1' = w_store w \<and> w_access w1' = w_access w1 \<and> w_metrics w1' = addUpBytes (b + u) (w_metrics w')"
        if same: "w_store w' = w_store w" "w_access w' = w_access w" for w'
      proof -
        obtain w2' where w2': "rec w' = (seen2, w2')" "w_store w2' = w_store w2" "w_access w2' = w_access w2"
          "w_store w2 = w_store w" "w_metrics w2' = addUpBytes b (w_metrics w')" using congr [OF same] by blast
        then obtain w1' where "udp_up_loop E L c r i rest (seen2, w2') = (res, seen1, w1')" "w_store w1' = w_store w2"
          "w_access w1' = w_access w1" "w_metrics w1' = addUpBytes u (w_metrics w2')" using u by blast
        with w2' Inr None show ?thesis
          by (simp add: after_def [symmetric] rec_def [symmetric] add_bytes_add)
      qed
      ultimately show ?thesis by auto
    qed
  qed
qed

lemma udp_down_loop_congr:
  "udp_down_loop outs w = (res, w1) \<Longrightarrow>
     \<exists>d. \<forall>w'. \<exists>w1'. udp_down_loop outs w' = (res, w1') \<and> w_store w1' = w_store w' \<and>
       w_access w1' = w_access w' \<and> w_metrics w1' = addDownBytes d (w_metrics w')"
proof (induction outs w arbitrary: w1 rule: udp_down_loop.induct)
  case (3 addr payload write_err rest w)
  show ?case
  proof (cases "relayAddressFromUDPAddr addr")
    case None
    with 3 show ?thesis by auto
  next
    case (Some target)
    define b :: "64 word" where "b = (if length payload > 0 then word_of_nat (length payload) else 0)"
    have metrics: "w_metrics (count_down (length payload) w) = addDownBytes b (w_metrics w)" for w
      by (simp only: count_metrics b_def)
    show ?thesis
    proof (cases write_err)
      case (Some err)
      with "3.prems" \<open>relayAddressFromUDPAddr addr = Some target\<close> show ?thesis
        by (auto simp: Let_def metrics intro: exI [of _ b])
    next
      case None
      with "3.prems" "3.IH"(2) [OF Some refl None] Some obtain d where
        d: "\<forall>w'. \<exists>w1'. udp_down_loop rest w' = (res, w1') \<and> w_store w1' = w_store w' \<and>
          w_access w1' = w_access w' \<and> w_metrics w1' = addDownBytes d (w_metrics w')"
        by (auto simp: Let_def)
      have "\<exists>w1'. udp_down_loop rest (count_down (length payload) (emit [SentDatagram target payload] w')) = (res, w1') \<and>
          w_store w1' = w_store w' \<and> w_access w1' = w_access w' \<and> w_metrics w1' = addDownBytes (b + d) (w_metrics w')" for w'
        using d [rule_format, of "count_down (length payload) (emit [SentDatagram target payload] w')"]
        by (auto simp: metrics add_bytes_add)
      then show ?thesis using Some None by (auto simp: Let_def)
    qed
  qed
qed (auto intro: exI [of _ 0])

section \<open>Invariants\<close>

definition up_run ::
  "env \<Rightarrow> relay_lib \<Rightarrow> conn_env \<Rightarrow> serverRelay \<Rightarrow> string \<Rightarrow> relay_world \<Rightarrow> udp_state \<Rightarrow>
   go_error option option \<times> string set \<times> relay_world"
where
  "up_run E L c r i w0 s = udp_up_loop E L c r i (read_in s) ({}, w0)"

definition down_run :: "relay_world \<Rightarrow> udp_state \<Rightarrow> go_error option option \<times> relay_world" where
  "down_run w0 s = udp_down_loop (read_out s) w0"

text \<open>The shared state is that of the two loops run separately.\<close>

definition data_inv ::
  "env \<Rightarrow> relay_lib \<Rightarrow> conn_env \<Rightarrow> serverRelay \<Rightarrow> string \<Rightarrow> relay_world \<Rightarrow> udp_state \<Rightarrow> bool"
where
  "data_inv E L c r i w0 s \<longleftrightarrow>
     (\<exists>resu wu resd wd u d.
        up_run E L c r i w0 s = (resu, seen_targets s, wu) \<and> down_run w0 s = (resd, wd) \<and>
        w_store wu = w_store w0 \<and> w_store (udp_world s) = w_store w0 \<and>
        w_access (udp_world s) = w_access wu \<and> w_access wd = w_access w0 \<and>
        w_metrics wu = addUpBytes u (w_metrics w0) \<and> w_metrics wd = addDownBytes d (w_metrics w0) \<and>
        w_metrics (udp_world s) = addDownBytes d (addUpBytes u (w_metrics w0)) \<and>
        (up_thread s = InLoop \<longrightarrow> resu = None) \<and> (down_thread s = InLoop \<longrightarrow> resd = None))"

text \<open>The channel carries the results of the two loops, each at most once.\<close>

definition sched_inv :: "conn_env \<Rightarrow> go_error option \<Rightarrow> go_error option \<Rightarrow> udp_state \<Rightarrow> bool" where
  "sched_inv c ru rd s \<longleftrightarrow>
     (\<forall>e. up_thread s = Leaving e \<longrightarrow> e = ru) \<and> (\<forall>e. down_thread s = Leaving e \<longrightarrow> e = rd) \<and>
     udp_got s @ udp_errCh s = map (\<lambda>b. if b then ru else rd) (from_up s) \<and> distinct (from_up s) \<and>
     (True \<in> set (from_up s) \<longleftrightarrow> up_thread s = Left) \<and> (False \<in> set (from_up s) \<longleftrightarrow> down_thread s = Left) \<and>
     (udp_closed s \<longleftrightarrow> udp_got s \<noteq> [] \<or> udp_ret s \<noteq> None) \<and>
     (udp_ret s = None \<longrightarrow> length (udp_got s) \<le> 1) \<and>
     (\<forall>e. udp_ret s = Some e \<longrightarrow> (udp_got s = [] \<and> udp_cancelled c \<and> e = None) \<or>
        (\<exists>a b. udp_got s = [a, b] \<and> e = (if a \<noteq> None then a else b)))"

definition udp_inv ::
  "env \<Rightarrow> relay_lib \<Rightarrow> conn_env \<Rightarrow> serverRelay \<Rightarrow> string \<Rightarrow> relay_world \<Rightarrow> udp_state \<Rightarrow> bool"
where
  "udp_inv E L c r i w0 s \<longleftrightarrow>
     data_inv E L c r i w0 s \<and>
     sched_inv c (ended (fst (up_run E L c r i w0 s))) (ended (fst (down_run w0 s))) s \<and>
     read_in s @ unread_in s = udp_inputs c \<and> read_out s @ unread_out s = udp_outputs c"

lemma data_inv_same:
  assumes "data_inv E L c r i w0 s"
    and "read_in t = read_in s" "read_out t = read_out s" "seen_targets t = seen_targets s"
    and "w_store (udp_world t) = w_store (udp_world s)" "w_access (udp_world t) = w_access (udp_world s)"
      "w_metrics (udp_world t) = w_metrics (udp_world s)"
    and "up_thread t = InLoop \<longrightarrow> up_thread s = InLoop" "down_thread t = InLoop \<longrightarrow> down_thread s = InLoop"
  shows "data_inv E L c r i w0 t"
  using assms unfolding data_inv_def up_run_def down_run_def by metis

lemma data_inv_start: "data_inv E L c r i w (udp_start c w)"
  unfolding data_inv_def up_run_def down_run_def udp_start_def
  by (intro exI [of _ None] exI [of _ w] exI [of _ "0 :: 64 word"]) simp

lemma data_inv_up_round:
  assumes inv: "data_inv E L c r i w0 s" and loop: "up_thread s = InLoop"
    and round: "udp_up_loop E L c r i [x] (seen_targets s, udp_world s) = (res, seen, w)"
  shows "data_inv E L c r i w0 (s\<lparr>unread_in := rest, read_in := read_in s @ [x],
      up_thread := thread_after res, seen_targets := seen, udp_world := w\<rparr>) \<and>
    fst (up_run E L c r i w0 (s\<lparr>read_in := read_in s @ [x]\<rparr>)) = res"
proof -
  obtain wu resd wd u d where s: "up_run E L c r i w0 s = (None, seen_targets s, wu)" "down_run w0 s = (resd, wd)"
    "w_store wu = w_store w0" "w_store (udp_world s) = w_store w0" "w_access (udp_world s) = w_access wu"
    "w_access wd = w_access w0" "w_metrics wu = addUpBytes u (w_metrics w0)"
    "w_metrics wd = addDownBytes d (w_metrics w0)"
    "w_metrics (udp_world s) = addDownBytes d (addUpBytes u (w_metrics w0))"
    "down_thread s = InLoop \<longrightarrow> resd = None"
    using inv loop unfolding data_inv_def by blast
  obtain v where v: "\<forall>w'. w_store w' = w_store (udp_world s) \<longrightarrow> w_access w' = w_access (udp_world s) \<longrightarrow>
      (\<exists>w1'. udp_up_loop E L c r i [x] (seen_targets s, w') = (res, seen, w1') \<and>
         w_store w1' = w_store (udp_world s) \<and> w_access w1' = w_access w \<and> w_metrics w1' = addUpBytes v (w_metrics w'))"
    using udp_up_loop_congr [OF round] by blast
  obtain wu' where wu': "udp_up_loop E L c r i [x] (seen_targets s, wu) = (res, seen, wu')"
    "w_store wu' = w_store w0" "w_access wu' = w_access w" "w_metrics wu' = addUpBytes v (w_metrics wu)"
    using v [rule_format, of wu] s by auto
  have w: "w_store w = w_store w0" "w_metrics w = addUpBytes v (w_metrics (udp_world s))"
    using v [rule_format, of "udp_world s"] s(4) round by auto
  have run: "udp_up_loop E L c r i (read_in s @ [x]) ({}, w0) = (res, seen, wu')"
    using udp_up_loop_append [OF s(1) [unfolded up_run_def], of "[x]"] wu'(1) by simp
  have "thread_after res = InLoop \<Longrightarrow> res = None" by (cases res) (simp_all add: thread_after_def)
  then show ?thesis
    using run s(2,6,8,10) wu'(2-4) w s(7,9)
    unfolding data_inv_def up_run_def down_run_def
    by (intro conjI exI [of _ res] exI [of _ wu'] exI [of _ resd] exI [of _ wd] exI [of _ "u + v"] exI [of _ d])
      (simp_all add: add_bytes_add)
qed

lemma data_inv_down_round:
  assumes inv: "data_inv E L c r i w0 s" and loop: "down_thread s = InLoop"
    and round: "udp_down_loop [y] (udp_world s) = (res, w)"
  shows "data_inv E L c r i w0 (s\<lparr>unread_out := rest, read_out := read_out s @ [y],
      down_thread := thread_after res, udp_world := w\<rparr>) \<and>
    fst (down_run w0 (s\<lparr>read_out := read_out s @ [y]\<rparr>)) = res"
proof -
  obtain resu wu wd u d where s: "up_run E L c r i w0 s = (resu, seen_targets s, wu)" "down_run w0 s = (None, wd)"
    "w_store wu = w_store w0" "w_store (udp_world s) = w_store w0" "w_access (udp_world s) = w_access wu"
    "w_access wd = w_access w0" "w_metrics wu = addUpBytes u (w_metrics w0)"
    "w_metrics wd = addDownBytes d (w_metrics w0)"
    "w_metrics (udp_world s) = addDownBytes d (addUpBytes u (w_metrics w0))"
    "up_thread s = InLoop \<longrightarrow> resu = None"
    using inv loop unfolding data_inv_def by blast
  obtain v where v: "\<forall>w'. \<exists>w1'. udp_down_loop [y] w' = (res, w1') \<and> w_store w1' = w_store w' \<and>
      w_access w1' = w_access w' \<and> w_metrics w1' = addDownBytes v (w_metrics w')"
    using udp_down_loop_congr [OF round] by blast
  obtain wd' where wd': "udp_down_loop [y] wd = (res, wd')" "w_access wd' = w_access wd"
    "w_metrics wd' = addDownBytes v (w_metrics wd)" using v by blast
  have w: "w_store w = w_store w0" "w_access w = w_access wu" "w_metrics w = addDownBytes v (w_metrics (udp_world s))"
    using v [rule_format, of "udp_world s"] s(4,5) round by auto
  have run: "udp_down_loop (read_out s @ [y]) w0 = (res, wd')"
    using udp_down_loop_append [OF s(2) [unfolded down_run_def], of "[y]"] wd'(1) by simp
  have "thread_after res = InLoop \<Longrightarrow> res = None" by (cases res) (simp_all add: thread_after_def)
  then show ?thesis
    using run s wd' w
    unfolding data_inv_def up_run_def down_run_def
    by (intro conjI exI [of _ resu] exI [of _ wu] exI [of _ res] exI [of _ wd'] exI [of _ u] exI [of _ "d + v"])
      (simp_all add: add_bytes_add)
qed

lemma sched_inv_start: "sched_inv c ru rd (udp_start c w)"
  by (simp add: sched_inv_def udp_start_def)

lemma thread_after_simps [simp]:
  "thread_after res \<noteq> Left" "thread_after res = Leaving e \<longleftrightarrow> res = Some e"
  by (auto simp: thread_after_def split: option.splits)

lemma ended_Some [simp]: "ended (Some e) = e" "ended None = normalizeCopyError (Some NetClosed)"
  by (simp_all add: ended_def)

lemma sched_inv_up_round:
  assumes "sched_inv c ru rd s" and "up_thread s = InLoop"
  shows "sched_inv c (ended res) rd (s\<lparr>unread_in := a, read_in := b, up_thread := thread_after res,
    seen_targets := seen, udp_world := w\<rparr>)"
proof -
  have "True \<notin> set (from_up s)" using assms by (simp add: sched_inv_def)
  then have "map (\<lambda>b. if b then ru else rd) (from_up s) = map (\<lambda>b. if b then ended res else rd) (from_up s)"
    by (intro map_cong refl) auto
  with assms show ?thesis by (simp add: sched_inv_def)
qed

lemma sched_inv_down_round:
  assumes "sched_inv c ru rd s" and "down_thread s = InLoop"
  shows "sched_inv c ru (ended res) (s\<lparr>unread_out := a, read_out := b, down_thread := thread_after res,
    udp_world := w\<rparr>)"
proof -
  have "False \<notin> set (from_up s)" using assms by (simp add: sched_inv_def)
  then have "map (\<lambda>b. if b then ru else rd) (from_up s) = map (\<lambda>b. if b then ru else ended res) (from_up s)"
    by (intro map_cong refl) auto
  with assms show ?thesis by (simp add: sched_inv_def)
qed

lemma data_inv_runs:
  "data_inv E L c r i w0 s \<Longrightarrow> up_thread s = InLoop \<Longrightarrow> fst (up_run E L c r i w0 s) = None"
  "data_inv E L c r i w0 s \<Longrightarrow> down_thread s = InLoop \<Longrightarrow> fst (down_run w0 s) = None"
  unfolding data_inv_def by (metis fst_conv)+

lemma run_updates:
  "read_in t = read_in s \<Longrightarrow> up_run E L c r i w0 t = up_run E L c r i w0 s"
  "read_out t = read_out s \<Longrightarrow> down_run w0 t = down_run w0 s"
  by (simp_all add: up_run_def down_run_def)

text \<open>A step of the schedule alone.\<close>

lemma udp_inv_same:
  assumes "udp_inv E L c r i w0 s"
    and "read_in t = read_in s" "read_out t = read_out s" "unread_in t = unread_in s" "unread_out t = unread_out s"
      "seen_targets t = seen_targets s"
    and "w_store (udp_world t) = w_store (udp_world s)" "w_access (udp_world t) = w_access (udp_world s)"
      "w_metrics (udp_world t) = w_metrics (udp_world s)"
    and "up_thread t = InLoop \<longrightarrow> up_thread s = InLoop" "down_thread t = InLoop \<longrightarrow> down_thread s = InLoop"
    and "\<And>ru rd. sched_inv c ru rd s \<Longrightarrow> (up_thread s = InLoop \<longrightarrow> ru = ended None) \<Longrightarrow>
      (down_thread s = InLoop \<longrightarrow> rd = ended None) \<Longrightarrow> sched_inv c ru rd t"
  shows "udp_inv E L c r i w0 t"
proof -
  have data: "data_inv E L c r i w0 s" using assms(1) by (simp add: udp_inv_def)
  have "data_inv E L c r i w0 t" by (rule data_inv_same [OF data]) (use assms in simp_all)
  moreover have "sched_inv c (ended (fst (up_run E L c r i w0 s))) (ended (fst (down_run w0 s))) t"
    using assms(1,12) data_inv_runs [OF data] by (simp add: udp_inv_def)
  ultimately show ?thesis
    using assms(1-5) run_updates(1) [OF assms(2)] run_updates(2) [OF assms(3)] by (simp add: udp_inv_def)
qed

lemma udp_inv_step:
  assumes "udp_step E L c r i s t" and inv: "udp_inv E L c r i w0 s"
  shows "udp_inv E L c r i w0 t"
  using assms(1)
proof cases
  case (up_round x rest res seen w)
  have data: "data_inv E L c r i w0 s" using inv by (simp add: udp_inv_def)
  note new = data_inv_up_round [OF data up_round(2,4), of rest]
  have "sched_inv c (ended res) (ended (fst (down_run w0 s))) t"
    using inv up_round(2) unfolding up_round(1) udp_inv_def by (blast intro: sched_inv_up_round)
  moreover have "fst (up_run E L c r i w0 t) = res" "down_run w0 t = down_run w0 s"
    using new by (simp_all add: up_round(1) up_run_def down_run_def)
  ultimately show ?thesis
    using new inv up_round(1,3) by (simp add: udp_inv_def)
next
  case (down_round y rest res w)
  have data: "data_inv E L c r i w0 s" using inv by (simp add: udp_inv_def)
  note new = data_inv_down_round [OF data down_round(2,4), of rest]
  have "sched_inv c (ended (fst (up_run E L c r i w0 s))) (ended res) t"
    using inv down_round(2) unfolding down_round(1) udp_inv_def by (blast intro: sched_inv_down_round)
  moreover have "fst (down_run w0 t) = res" "up_run E L c r i w0 t = up_run E L c r i w0 s"
    using new by (simp_all add: down_round(1) up_run_def down_run_def)
  ultimately show ?thesis
    using new inv down_round(1,3) by (simp add: udp_inv_def)
next
  case up_read_closed
  then show ?thesis by (intro udp_inv_same [OF inv]) (auto simp: sched_inv_def)
next
  case (up_sends err)
  then show ?thesis by (intro udp_inv_same [OF inv]) (auto simp: sched_inv_def simp flip: append_assoc)
next
  case down_read_closed
  then show ?thesis by (intro udp_inv_same [OF inv]) (auto simp: sched_inv_def)
next
  case (down_sends err)
  then show ?thesis by (intro udp_inv_same [OF inv]) (auto simp: sched_inv_def simp flip: append_assoc)
next
  case (select_result err rest)
  then show ?thesis by (intro udp_inv_same [OF inv]) (auto simp: sched_inv_def)
next
  case (second_result err second rest)
  then show ?thesis by (intro udp_inv_same [OF inv]) (auto simp: sched_inv_def)
next
  case select_cancelled
  then show ?thesis by (intro udp_inv_same [OF inv]) (auto simp: sched_inv_def)
qed

lemma udp_inv_start: "udp_inv E L c r i w (udp_start c w)"
  using data_inv_start sched_inv_start by (simp add: udp_inv_def) (simp add: udp_start_def)

fun thread_work :: "udp_thread \<Rightarrow> nat" where
  "thread_work InLoop = 2" | "thread_work (Leaving err) = 1" | "thread_work Left = 0"

definition udp_work :: "udp_state \<Rightarrow> nat" where
  "udp_work s = length (unread_in s) + length (unread_out s) + thread_work (up_thread s) +
     thread_work (down_thread s) + (2 - length (udp_got s)) + (if udp_ret s = None then 1 else 0)"

lemma thread_work_after: "thread_work (thread_after res) \<le> 2"
  by (cases res) (simp_all add: thread_after_def)

lemma udp_work_step: "udp_step E L c r i s t \<Longrightarrow> udp_work t < udp_work s"
  by (induction rule: udp_step.induct)
    (auto simp: udp_work_def add.commute le_imp_less_Suc thread_work_after add_le_mono)

interpretation udp: terminating_system "udp_step E L c r i" "udp_start c w" "udp_inv E L c r i w" udp_work
  for E L c r i w
  by unfold_locales (simp_all add: udp_inv_start udp_inv_step udp_work_step)

section \<open>Consequences\<close>

lemma other_answers:
  assumes "ResolveUDPAddr c' = ResolveUDPAddr c" "remote_addr c' = remote_addr c" "conn_now c' = conn_now c"
  shows "udp_up_loop E L c' r i ins sw = udp_up_loop E L c r i ins sw"
proof -
  have "record_access E c' r i a n w = record_access E c r i a n w" for a n w
    by (simp add: record_access_def assms)
  then have same: "resolveUDPAddress L c' a = resolveUDPAddress L c a"
    "recordUDPAccess E L c' r i a p = recordUDPAccess E L c r i a p" for a p
    by (cases p; simp add: resolveUDPAddress_def recordUDPAccess_def Let_def assms)+
  show ?thesis
  proof (induction ins arbitrary: sw)
    case (Cons x ins)
    obtain seen w where "sw = (seen, w)" by (cases sw)
    moreover have "udp_up_loop E L c' r i (ReadDatagram a p (n, e) # ins) (seen, w)
        = udp_up_loop E L c r i (ReadDatagram a p (n, e) # ins) (seen, w)" for a p n e
      by (simp add: same Cons Let_def split: sum.splits option.splits)
    ultimately show ?case by (cases x) auto
  qed simp
qed

lemma distinct_bools: "distinct (bs :: bool list) \<Longrightarrow> length bs \<le> 2"
proof -
  assume "distinct bs"
  then have "length bs = card (set bs)" by (simp add: distinct_card)
  also have "\<dots> \<le> card (UNIV :: bool set)" by (rule card_mono) simp_all
  finally show ?thesis by simp
qed

lemma addDownBytes_inj: "addDownBytes a m = addDownBytes b m \<longleftrightarrow> a = b"
proof
  have sel: "m_downBytes (addDownBytes n m) = m_downBytes m + n" for n
    by (simp add: addDownBytes_def)
  assume "addDownBytes a m = addDownBytes b m"
  then have "m_downBytes m + a = m_downBytes m + b" by (metis sel)
  then show "a = b" by simp
qed simp

text \<open>The result of the select from the results of the two loops.\<close>

lemma sched_result:
  assumes "sched_inv c ru rd s" and "udp_ret s = Some e"
  shows "(udp_got s = [] \<and> udp_cancelled c \<and> e = None) \<or>
    (udp_got s \<noteq> [] \<and> up_thread s = Left \<and> down_thread s = Left \<and>
     e = (if hd (from_up s) then if ru \<noteq> None then ru else rd else if rd \<noteq> None then rd else ru))"
proof (cases "udp_got s = []")
  case False
  with assms obtain x y where got: "udp_got s = [x, y]" "e = (if x \<noteq> None then x else y)"
    unfolding sched_inv_def by blast
  have sent: "udp_got s @ udp_errCh s = map (\<lambda>b. if b then ru else rd) (from_up s)" "distinct (from_up s)"
    using assms(1) by (simp_all add: sched_inv_def)
  then obtain a b bs where order: "from_up s = a # b # bs" using got(1) by (cases "from_up s"; cases "tl (from_up s)") auto
  have "a \<noteq> b" using sent(2) by (simp add: order)
  then have "b = (\<not> a)" "True \<in> set (from_up s)" "False \<in> set (from_up s)" by (cases a; simp add: order)+
  moreover have "x = (if a then ru else rd)" "y = (if b then ru else rd)" using sent(1) got(1) order by simp_all
  moreover have "True \<in> set (from_up s) \<longleftrightarrow> up_thread s = Left" "False \<in> set (from_up s) \<longleftrightarrow> down_thread s = Left"
    using assms(1) by (simp_all only: sched_inv_def)
  ultimately show ?thesis using False got(2) order by (cases a) simp_all
qed (use assms in \<open>auto simp: sched_inv_def\<close>)

definition udp_answers :: "conn_env \<Rightarrow> udp_state \<Rightarrow> conn_env" where
  "udp_answers c s = c\<lparr>udp_inputs := read_in s, udp_outputs := read_out s,
     udp_cancelled := (udp_got s = []), udp_up_first := hd (from_up s)\<rparr>"

lemma udp_outcome:
  assumes "(udp_step E L c r i)\<^sup>*\<^sup>* (udp_start c w) s" and "udp_ret s = Some e"
  shows "\<exists>w'. pipeUDPAssociate E L (udp_answers c s) r i w = (e, w') \<and>
    w_metrics (udp_world s) = w_metrics w' \<and> w_access (udp_world s) = w_access w' \<and>
    w_store (udp_world s) = w_store w"
proof -
  have inv: "udp_inv E L c r i w s" using assms(1) by (rule udp.reachable)
  then obtain resu wu resd wd u d where
    run: "up_run E L c r i w s = (resu, seen_targets s, wu)" "down_run w s = (resd, wd)"
    and world: "w_store (udp_world s) = w_store w" "w_access (udp_world s) = w_access wu"
      "w_metrics wu = addUpBytes u (w_metrics w)" "w_metrics wd = addDownBytes d (w_metrics w)"
      "w_metrics (udp_world s) = addDownBytes d (addUpBytes u (w_metrics w))"
    unfolding udp_inv_def data_inv_def by blast
  obtain d' where d': "\<forall>w'. \<exists>w1'. udp_down_loop (read_out s) w' = (resd, w1') \<and> w_store w1' = w_store w' \<and>
      w_access w1' = w_access w' \<and> w_metrics w1' = addDownBytes d' (w_metrics w')"
    using udp_down_loop_congr [OF run(2) [unfolded down_run_def]] by blast
  then have "w_metrics wd = addDownBytes d' (w_metrics w)" using run(2) by (metis down_run_def prod.inject)
  then have "d' = d" using world(4) addDownBytes_inj by metis
  then obtain w1 where w1: "udp_down_loop (read_out s) wu = (resd, w1)" "w_access w1 = w_access wu"
    "w_metrics w1 = addDownBytes d (w_metrics wu)" using d' by blast
  have up: "udp_up_loop E L (udp_answers c s) r i (read_in s) ({}, w) = (resu, seen_targets s, wu)"
    using run(1) by (simp add: up_run_def) (subst other_answers [of _ c]; simp add: udp_answers_def)
  have "sched_inv c (ended resu) (ended resd) s" using inv run by (simp add: udp_inv_def)
  from sched_result [OF this assms(2)] show ?thesis
    using up w1 world by (auto simp: pipeUDPAssociate_def udp_answers_def Let_def)
qed

text \<open>
  A run that can go no further has returned with both goroutines done, unless it rightly waits:
  nothing has ended, nothing is left to read and the context is alive.
\<close>

lemma udp_progress:
  assumes "udp_inv E L c r i w s" and stuck: "\<forall>t. \<not> udp_step E L c r i s t"
  shows "(udp_ret s \<noteq> None \<and> up_thread s = Left \<and> down_thread s = Left) \<or>
    (\<not> udp_closed s \<and> \<not> udp_cancelled c \<and> up_thread s = InLoop \<and> down_thread s = InLoop \<and>
     unread_in s = [] \<and> unread_out s = [])"
proof -
  obtain ru rd where inv: "sched_inv c ru rd s" using assms(1) unfolding udp_inv_def by blast
  have chan: "length (udp_got s) + length (udp_errCh s) = length (from_up s)" "distinct (from_up s)"
    using inv by (simp_all add: sched_inv_def) (metis length_append length_map)
  have room: "length (udp_errCh s) < 2" if "up_thread s \<noteq> Left \<or> down_thread s \<noteq> Left"
  proof -
    have "length (from_up s) < 2"
    proof (rule ccontr)
      assume "\<not> length (from_up s) < 2"
      with distinct_bools [OF chan(2)] have "card (set (from_up s)) = card (UNIV :: bool set)"
        using distinct_card [OF chan(2)] by simp
      then have "set (from_up s) = UNIV" by (intro card_subset_eq) simp_all
      with inv that show False by (simp add: sched_inv_def)
    qed
    with chan(1) show ?thesis by simp
  qed
  have threads: "up_thread s \<noteq> Leaving e" "down_thread s \<noteq> Leaving e" for e
    using room stuck by (metis udp_step.up_sends udp_thread.distinct(5), metis udp_step.down_sends udp_thread.distinct(5))
  show ?thesis
  proof (cases "udp_closed s")
    case True
    then have "up_thread s = Left" "down_thread s = Left"
      using threads stuck udp_step.up_read_closed udp_step.down_read_closed by (metis udp_thread.exhaust)+
    moreover have "udp_ret s \<noteq> None"
    proof
      assume ret: "udp_ret s = None"
      then obtain x where got: "udp_got s = [x]"
        using inv True by (cases "udp_got s") (auto simp: sched_inv_def)
      have "{True, False} \<subseteq> set (from_up s)" using inv calculation by (simp add: sched_inv_def)
      then have "card {True, False} \<le> length (from_up s)" using card_length card_mono le_trans by (metis List.finite_set)
      then obtain y rest where "udp_errCh s = y # rest" using chan(1) got by (cases "udp_errCh s") auto
      with got ret stuck show False using udp_step.second_result by blast
    qed
    ultimately show ?thesis by blast
  next
    case False
    then have open_now: "udp_got s = []" "udp_ret s = None" using inv by (auto simp: sched_inv_def)
    then have "udp_errCh s = []" using stuck udp_step.select_result by (metis list.exhaust)
    then have "from_up s = []" using chan(1) open_now(1) by simp
    then have loop: "up_thread s = InLoop" "down_thread s = InLoop"
      using inv threads by (auto simp: sched_inv_def) (metis udp_thread.exhaust)+
    moreover have "unread_in s = []" "unread_out s = []"
      using loop stuck udp_step.up_round udp_step.down_round by (metis list.exhaust prod.exhaust)+
    moreover have "\<not> udp_cancelled c" using open_now stuck udp_step.select_cancelled by blast
    ultimately show ?thesis using False by blast
  qed
qed

end
