(* ===== verification/Relay_Properties.thy ===== *)
theory Relay_Properties
  imports Samples Relay_Pipe Proxy_Context Udp_Association
begin

text \<open>
  The properties of what the relays share and do: the credential store, the access log, the
  proxy, and the service of one connection.
\<close>

section \<open>The credential store\<close>

text \<open>However many user lists the panel has sent, the secret a relay looks up for a client is
  that of the last list, else the fixed one of the configuration; nothing of an earlier list
  survives.\<close>

theorem lookup_after_lists:
  "LookupClientSecret (foldl (\<lambda>s cs. ReplaceDynamic cs s) s (css @ [cs])) = staticSecrets s ++ secrets_of cs"
  using store.find_after_replacements [of "css @ [cs]" s] by simp

text \<open>The size the store reports is an upper bound of the number of clients that can log in, and
  exact when no client is both fixed and on the panel's list.\<close>

theorem snapshot_size:
  assumes "store_inv s"
  shows "card (dom (LookupClientSecret s)) \<le> SnapshotSize s \<and>
    (dom (staticSecrets s) \<inter> dom (dynamicSecrets s) = {} \<longrightarrow>
       card (dom (LookupClientSecret s)) = SnapshotSize s)"
proof -
  have "finite (dom (staticSecrets s))" "finite (dom (dynamicSecrets s))"
    using assms unfolding store_inv_def well_keyed_def by blast+
  then have "card (dom (LookupClientSecret s)) = SnapshotSize s"
    if "dom (staticSecrets s) \<inter> dom (dynamicSecrets s) = {}"
    using that by (simp add: LookupClientSecret_eq SnapshotSize_def card_Un_disjoint Int_commute)
  with SnapshotSize_bound [OF assms] show ?thesis by blast
qed

theorem snapshot_size_witness:
  "card (dom (LookupClientSecret (AddStatic [\<lparr>cred_ClientID = ''fixed'', cred_Secret = [1], cred_UserID = 0\<rparr>]
     newDynamicClientStore))) \<le> SnapshotSize (AddStatic [\<lparr>cred_ClientID = ''fixed'', cred_Secret = [1],
     cred_UserID = 0\<rparr>] newDynamicClientStore)"
  using snapshot_size [OF store_inv_ops(2) [OF store_inv_new]] by blast

text \<open>C36: The secret derived for a user is the digest of a text that determines the shared secret, the
  user's id and the token, as long as none of them contains a line break: no two users share a
  preimage.\<close>

theorem derived_secret_preimage:
  assumes "one_line n" "one_line u" "one_line t" "one_line n'" "one_line u'" "one_line t'"
  shows "deriveUserClientSecret n u t = sha256_Sum256 (user_preimage n u t) \<and>
    (user_preimage n u t = user_preimage n' u' t' \<longleftrightarrow>
       trim_space n = trim_space n' \<and> trim_space u = trim_space u' \<and> trim_space t = trim_space t')"
  using user_preimage_inj [OF assms] deriveUserClientSecret_eq by blast

theorem derived_secret_preimage_witness:
  "user_preimage ''shared'' ''7'' ''fixed'' \<noteq> user_preimage ''shared'' ''fixed'' ''7''"
  using derived_secret_preimage [of "''shared''" "''7''" "''fixed''" "''shared''" "''fixed''" "''7''"]
  by (simp add: one_line_def)

text \<open>With line breaks the derivation is ambiguous: two different pairs of user id and token give
  the same secret.\<close>

theorem derived_secret_ambiguous:
  "\<exists>u t u' t'. trim_space u \<noteq> trim_space u' \<and> trim_space t \<noteq> trim_space t' \<and>
     deriveUserClientSecret n u t = deriveUserClientSecret n u' t'"
proof -
  have plain: "plain_char CHR ''7''" "plain_char CHR ''8''" "plain_char CHR ''9''"
    by (simp_all add: plain_char_def)
  have one: "trim_space ''7'' = ''7''" "trim_space ''9'' = ''9''"
    by (rule trim_space_plain; simp add: plain)+
  have two: "trim_space [CHR ''7'', CHR 0x0A, CHR ''8''] = [CHR ''7'', CHR 0x0A, CHR ''8'']"
    "trim_space [CHR ''8'', CHR 0x0A, CHR ''9''] = [CHR ''8'', CHR 0x0A, CHR ''9'']"
    by (rule trim_space_plain; simp add: plain)+
  have "deriveUserClientSecret n [CHR ''7'', CHR 0x0A, CHR ''8''] ''9''
      = deriveUserClientSecret n ''7'' [CHR ''8'', CHR 0x0A, CHR ''9'']"
    by (simp add: deriveUserClientSecret_def one two)
  then show ?thesis
    by (intro exI [of _ "[CHR ''7'', CHR 0x0A, CHR ''8'']"] exI [of _ "''9''"] exI [of _ "''7''"]
        exI [of _ "[CHR ''8'', CHR 0x0A, CHR ''9'']"]) (simp add: one two)
qed

section \<open>The access log\<close>

text \<open>C12: Between the relays that record and the panel that accepts, no access record is duplicated or
  reordered and every one is accounted for: accepted records are acknowledged, in flight, in the
  buffer (at most 10000) or counted as lost; without a loss the three parts are exactly the
  accepted records in order.\<close>

theorem access_log_accounting:
  assumes "log_step\<^sup>*\<^sup>* log_start s"
  shows "length (log_items (buffer s)) \<le> maxAccessLogQueueSize \<and>
    subseq (acknowledged s @ in_flight s @ log_items (buffer s)) (accepted s) \<and>
    length (accepted s) = length (acknowledged s) + length (in_flight s) + length (log_items (buffer s)) + lost s \<and>
    (lost s = 0 \<longrightarrow> acknowledged s @ in_flight s @ log_items (buffer s) = accepted s)"
proof -
  have inv: "log_inv s" using assms by (rule log.reachable)
  have "lost s = 0 \<longrightarrow> acknowledged s @ in_flight s @ log_items (buffer s) = accepted s"
    using log_nothing_lost [OF inv] by blast
  with inv show ?thesis unfolding log_inv_def by blast
qed

definition sample_item :: kboardAccessLogItem where
  "sample_item = accessLogItem sample_env ''fixed'' 7 \<lparr>Host = ''local'', Port = 443\<rparr> ''tcp'' ''public'' 0"

definition sample_log :: log_state where
  "sample_log = log_start\<lparr>buffer := \<lparr>log_items = [sample_item]\<rparr>, accepted := [sample_item]\<rparr>"

lemma accessLogItem_domain: "al_Domain (accessLogItem E c u t n r moment) = ToLower E (trim_space (Host t))"
  by (simp add: accessLogItem_def Let_def)

lemma sample_recorded: "log_step log_start sample_log"
proof -
  have "ToLower sample_env ''local'' = ''local''"
    by (simp add: ToLower_ascii is_ascii_def ascii_lower_def)
  then have "al_Domain sample_item = ''local''" by (simp add: sample_item_def accessLogItem_domain)
  then have "Record sample_item (Some (buffer log_start)) = (True, Some \<lparr>log_items = [sample_item]\<rparr>)"
    by (simp add: Record_def log_start_def maxAccessLogQueueSize_def)
  from log_step.recorded [OF this] show ?thesis by (simp add: sample_log_def log_start_def)
qed

theorem access_log_accounting_witness: "acknowledged sample_log @ in_flight sample_log @ [sample_item] = [sample_item]"
  using access_log_accounting [OF r_into_rtranclp, OF sample_recorded]
  by (simp add: sample_log_def log_start_def)

text \<open>C34: A record is lost only when a batch the panel did not take comes back to a buffer that filled
  up while the batch was in flight: with room for both, whatever happens next loses nothing, and
  the acknowledged records, those in flight and those in the buffer stay in order, followed by
  what was accepted.\<close>

theorem access_log_no_loss:
  assumes "log_step\<^sup>*\<^sup>* log_start s" and "log_step s t"
    and "length (in_flight s) + length (log_items (buffer s)) \<le> maxAccessLogQueueSize"
  shows "lost t = lost s \<and> (\<exists>new. accepted t = accepted s @ new \<and>
    acknowledged t @ in_flight t @ log_items (buffer t) =
      acknowledged s @ in_flight s @ log_items (buffer s) @ new)"
  using log_step_keeps [OF assms(2) log.reachable [OF assms(1)] assms(3)] .

theorem access_log_no_loss_witness:
  "lost sample_log = lost log_start \<and> acknowledged sample_log @ in_flight sample_log @ [sample_item] = [sample_item]"
  using access_log_no_loss [OF _ sample_recorded] by (simp add: log_start_def sample_log_def maxAccessLogQueueSize_def)

section \<open>The proxies\<close>

text \<open>C15: For both proxies, over all interleavings of the two copying goroutines and the caller: a run
  that has returned knows what \<open>io.Copy\<close> gave each direction and which of the two sent first, and
  the error the caller gets and the bytes counted up and down are exactly those of the function
  \<open>pipe_run\<close> on these answers of the run; and every answer of the copies, in either order, is
  that of a run.\<close>

theorem proxy_outcomes:
  "((\<exists>s. pipe_step\<^sup>*\<^sup>* (pair_start m) s \<and> pipe_answers s = Some out \<and> pipe_result s = Some r \<and> counters s = m') \<longleftrightarrow>
      pipe_run out m = (r, m')) \<and>
   (\<nexists>s. pipe_step\<^sup>*\<^sup>* (pair_start m) s \<and> pipe_result s \<noteq> None \<and> pipe_answers s = None) \<and>
   ((\<exists>s. relay_pipe_step\<^sup>*\<^sup>* (relay_pair_start m) s \<and> relay_pipe_answers s = Some out \<and>
        relay_pipe_result s = Some r \<and> rp_metrics s = m') \<longleftrightarrow>
      pipe_run out m = (r, m')) \<and>
   (\<nexists>s. relay_pipe_step\<^sup>*\<^sup>* (relay_pair_start m) s \<and> relay_pipe_result s \<noteq> None \<and> relay_pipe_answers s = None)"
proof (intro conjI)
  show "(\<exists>s. pipe_step\<^sup>*\<^sup>* (pair_start m) s \<and> pipe_answers s = Some out \<and> pipe_result s = Some r \<and> counters s = m') \<longleftrightarrow>
      pipe_run out m = (r, m')"
    using pipe_run_history pipe_run_reachable [of m out] by fastforce
  show "\<nexists>s. pipe_step\<^sup>*\<^sup>* (pair_start m) s \<and> pipe_result s \<noteq> None \<and> pipe_answers s = None"
    using pipe_run_history by force
  show "(\<exists>s. relay_pipe_step\<^sup>*\<^sup>* (relay_pair_start m) s \<and> relay_pipe_answers s = Some out \<and>
        relay_pipe_result s = Some r \<and> rp_metrics s = m') \<longleftrightarrow>
      pipe_run out m = (r, m')"
    using relay_pipe_run_history relay_pipe_run_reachable [of m out] by fastforce
  show "\<nexists>s. relay_pipe_step\<^sup>*\<^sup>* (relay_pair_start m) s \<and> relay_pipe_result s \<noteq> None \<and> relay_pipe_answers s = None"
    using relay_pipe_run_history by force
qed

text \<open>C16: A proxy ends unless it rightly waits: however its goroutines, the connections and the context
  are scheduled it takes at most nine steps, what it returns and counts is that of the sequential
  function, and a run that can go no further has returned with both copies done and both
  connections closed, or neither side ends its copy and the context stays alive.\<close>

theorem proxy_ends:
  assumes "(guarded_step e ^^ n) (guarded_start m) s"
  shows "n \<le> 9 \<and>
    (\<forall>r. pipe_result (gp_pair s) = Some r \<longrightarrow> (\<exists>out. pipe_run out m = (r, counters (gp_pair s)))) \<and>
    ((\<forall>t. \<not> guarded_step e s t) \<longrightarrow>
       (pipe_result (gp_pair s) \<noteq> None \<and> up (gp_pair s) = Sent \<and> down (gp_pair s) = Sent \<and> gp_conns_closed s) \<or>
       (pipe_result (gp_pair s) = None \<and> \<not> gp_conns_closed s \<and> end_up e = None \<and> end_down e = None \<and> \<not> ctx_ends e))"
proof -
  have inv: "guarded_inv e m s" using assms by (rule guarded.after_steps)
  have "guarded_work (guarded_start m) = 9"
    by (simp add: guarded_work_def guarded_start_def pair_work_def pair_start_def)
  with guarded.steps_bounded [OF assms] have "n \<le> 9" by simp
  moreover have "\<exists>out. pipe_run out m = (r, counters (gp_pair s))" if "pipe_result (gp_pair s) = Some r" for r
    using pipe_run_complete [OF _ that] inv by (simp add: guarded_inv_def)
  ultimately show ?thesis using guarded_progress [OF inv] by blast
qed

text \<open>Both sides are silent and the context ends: the proxy returns.\<close>

theorem proxy_ends_witness:
  "\<exists>n s. (guarded_step \<lparr>end_up = None, end_down = None, ctx_ends = True\<rparr> ^^ n) (guarded_start (NewMetrics 0)) s \<and>
     n \<le> 9 \<and> pipe_result (gp_pair s) \<noteq> None"
proof -
  let ?e = "\<lparr>end_up = None, end_down = None, ctx_ends = True\<rparr> :: proxy_env"
  obtain s where s: "(guarded_step ?e)\<^sup>*\<^sup>* (guarded_start (NewMetrics 0)) s" "\<forall>t. \<not> guarded_step ?e s t"
    using guarded.runs_out [of ?e "NewMetrics 0" "guarded_start (NewMetrics 0)"] by blast
  then obtain n where n: "(guarded_step ?e ^^ n) (guarded_start (NewMetrics 0)) s" by (blast dest: rtranclp_imp_relpowp)
  have "pipe_result (gp_pair s) \<noteq> None" using proxy_ends [OF n] s(2) by auto
  with proxy_ends [OF n] n show ?thesis by blast
qed

section \<open>One connection\<close>

text \<open>C10: A relay sends no response when the handshake or the request fails and exactly one otherwise:
  success or the dial error for a TCP request, success or the listen error for a UDP request, and
  the error of an unsupported command for any other.\<close>

theorem relay_response:
  "responses (Handle E L c r w) = responses w @
     (case ServerHandshake c (serverConfig E r (w_store w)) of
        Inl _ \<Rightarrow> []
      | Inr _ \<Rightarrow> (case next_request c of Inl _ \<Rightarrow> [] | Inr req \<Rightarrow> [expected_response E L c req]))"
  by (rule Handle_responses)

text \<open>C9: From the client's request to the client's result: when the request for a target arrives as
  it was written, the one response the relay sends tells the client exactly whether dialling that
  target succeeded, with the text of the error (an error without a text reads as success).\<close>

theorem connect_end_to_end:
  assumes "relay_codec L"
    and "writeConnectRequest L target = Inr sent"
    and "next_request c = map_sum id fst (readRelayRequest L (sent @ rest))"
    and "ServerHandshake c (serverConfig E r (w_store w)) = Inr clientID"
    and "responses w = []"
  shows "\<exists>resp. responses (Handle E L c r w) = [resp] \<and>
    (\<forall>out later. WriteResponse L resp = Inr out \<longrightarrow>
       readConnectResponse L (out @ later) =
         (case tcp_dial c (Address_String L target) of
            None \<Rightarrow> None
          | Some err \<Rightarrow> if Error_text E err = [] then None else Some (Err (Error_text E err))))"
proof -
  define errText where
    "errText = (case tcp_dial c (Address_String L target) of None \<Rightarrow> [] | Some err \<Rightarrow> Error_text E err)"
  have "WriteRequest L \<lparr>rq_Command = CommandTCPConnect L, rq_Address = target\<rparr> = Inr sent"
    using assms(2) relay_codecD(3) [OF assms(1)] by (cases target) (simp add: writeConnectRequest_def)
  then have "next_request c = Inr \<lparr>rq_Command = CommandTCPConnect L, rq_Address = target\<rparr>"
    using assms(3) relay_codecD(1) [OF assms(1)] by (simp add: readRelayRequest_def)
  then have resp: "responses (Handle E L c r w) = [connect_response L errText]"
    using assms(4,5) by (simp add: Handle_responses expected_response_def errText_def)
  have "readConnectResponse L (out @ later) = (if errText = [] then None else Some (Err errText))"
    if "WriteResponse L (connect_response L errText) = Inr out" for out later
    using that by (intro connect_response_roundtrip [OF assms(1)]) (simp add: writeConnectResponse_def)
  with resp show ?thesis by (auto simp: errText_def split: option.splits)
qed

definition sample_target :: RelayTarget where
  "sample_target = \<lparr>Host = ''local'', Port = 443\<rparr>"

definition sample_copies :: copy_outcome where
  "sample_copies = \<lparr>up_first = True, up_count = 3, up_error = None, down_count = 4, down_error = None\<rparr>"

definition sample_conn :: conn_env where
  "sample_conn =
     \<lparr>ServerHandshake = (\<lambda>_. Inr ''fixed''),
      next_request = Inr \<lparr>rq_Command = 1, rq_Address = sample_target\<rparr>,
      remote_addr = ''127.0.0.1:9000'', conn_now = 0, tcp_dial = (\<lambda>_. Some (Err ''refused'')),
      respond = (\<lambda>_. None), copies = sample_copies, ListenPacket = None, ResolveUDPAddr = Inr,
      udp_inputs = [], udp_outputs = [], udp_cancelled = False, udp_up_first = True\<rparr>"

definition sample_server_relay :: serverRelay where
  "sample_server_relay =
     \<lparr>sr_cfg = i_KLESS sample_relay_inbound, sr_signing = sample_private, sr_listenID = ''public''\<rparr>"

definition sample_world :: relay_world where
  "sample_world =
     \<lparr>w_store = newDynamicClientStore, w_access = newAccessLogBuffer, w_metrics = NewMetrics 0, w_trace = []\<rparr>"

lemma sample_request:
  "writeConnectRequest sample_relay sample_target = put_request \<lparr>rq_Command = 1, rq_Address = sample_target\<rparr>"
  by (simp add: writeConnectRequest_def sample_relay_def sample_target_def)

theorem connect_end_to_end_witness:
  "\<exists>resp. responses (Handle sample_env sample_relay sample_conn sample_server_relay sample_world) = [resp] \<and>
     (\<forall>out later. WriteResponse sample_relay resp = Inr out \<longrightarrow>
        readConnectResponse sample_relay (out @ later) = Some (Err ''refused''))"
proof -
  obtain sent where sent: "put_request \<lparr>rq_Command = 1, rq_Address = sample_target\<rparr> = Inr sent"
    by (simp add: put_request_def sample_target_def)
  have "readRelayRequest sample_relay (sent @ []) = Inr (\<lparr>rq_Command = 1, rq_Address = sample_target\<rparr>, [])"
    unfolding readRelayRequest_def using get_put_request [OF sent] by (simp only: sample_relay_def relay_lib.simps)
  then have req: "next_request sample_conn = map_sum id fst (readRelayRequest sample_relay (sent @ []))"
    by (simp add: sample_conn_def)
  have "ServerHandshake sample_conn (serverConfig sample_env sample_server_relay (w_store sample_world)) = Inr ''fixed''"
    by (simp add: sample_conn_def)
  moreover have "responses sample_world = []" by (simp add: responses_def sample_world_def)
  moreover have "tcp_dial sample_conn a = Some (Err ''refused'')" for a by (simp add: sample_conn_def)
  ultimately show ?thesis
    using connect_end_to_end [OF sample_relay_codec sent [folded sample_request] req] by simp
qed

text \<open>C35: A UDP association adds at most one access record per target, whatever the case of the
  target's name and however many datagrams are sent to it.\<close>

theorem udp_one_record_per_target:
  "log_size (snd (snd (udp_up_loop E L c r clientID inputs ({}, w))))
     \<le> log_size w + card (udp_keys E L inputs)"
  using udp_records_bound [of E L c r clientID inputs w] by (metis prod.collapse)

section \<open>A UDP association\<close>

text \<open>C17: Over all interleavings of the two goroutines of a UDP association, the closing of its sockets
  and the cancellation of the node, what the association returns, the bytes it counts and the
  access records it makes are those of the function \<open>pipeUDPAssociate\<close> on what the goroutines have
  read, which is a prefix of what was there to read.\<close>

theorem udp_association_outcome:
  assumes "(udp_step E L c r clientID)\<^sup>*\<^sup>* (udp_start c w) s" and "udp_ret s = Some e"
  shows "(\<exists>w'. pipeUDPAssociate E L (udp_answers c s) r clientID w = (e, w') \<and>
      w_metrics (udp_world s) = w_metrics w' \<and> w_access (udp_world s) = w_access w') \<and>
    prefix (read_in s) (udp_inputs c) \<and> prefix (read_out s) (udp_outputs c)"
proof -
  have "udp_inv E L c r clientID w s" using assms(1) by (rule udp.reachable)
  then have "read_in s @ unread_in s = udp_inputs c" "read_out s @ unread_out s = udp_outputs c"
    by (simp_all add: udp_inv_def)
  then have "prefix (read_in s) (udp_inputs c)" "prefix (read_out s) (udp_outputs c)" by (metis prefixI)+
  with udp_outcome [OF assms] show ?thesis by blast
qed

definition ending_conn :: conn_env where
  "ending_conn = sample_conn\<lparr>udp_inputs := [ReadFailed EOF], udp_cancelled := True\<rparr>"

definition ended_association :: udp_state where
  "ended_association = (udp_start ending_conn sample_world)
     \<lparr>udp_closed := True, udp_ret := Some None,
      udp_world := emit [Closed UDPSocket, Closed SecureConn] sample_world\<rparr>"

lemma sample_association:
  "udp_step sample_env sample_relay ending_conn sample_server_relay ''fixed''
     (udp_start ending_conn sample_world) ended_association"
  using udp_step.select_cancelled [of "udp_start ending_conn sample_world" ending_conn sample_env sample_relay
      sample_server_relay "''fixed''"]
  by (simp add: ended_association_def udp_start_def ending_conn_def)

theorem udp_association_outcome_witness:
  "\<exists>w'. pipeUDPAssociate sample_env sample_relay (udp_answers ending_conn ended_association) sample_server_relay
     ''fixed'' sample_world = (None, w') \<and> w_metrics w' = NewMetrics 0"
proof -
  have "udp_ret ended_association = Some None" "w_metrics (udp_world ended_association) = NewMetrics 0"
    by (simp_all add: ended_association_def sample_world_def)
  then show ?thesis
    using udp_association_outcome [OF r_into_rtranclp, OF sample_association] by metis
qed

text \<open>C18: A UDP association does not hang: the number of its steps is bounded by what there is to read,
  and where no step is possible it has returned with both goroutines done, unless it rightly waits
  for traffic with nothing ended and the node alive.\<close>

theorem udp_association_ends:
  assumes "(udp_step E L c r clientID ^^ n) (udp_start c w) s"
  shows "n \<le> length (udp_inputs c) + length (udp_outputs c) + 7 \<and>
    ((\<forall>t. \<not> udp_step E L c r clientID s t) \<longrightarrow>
       (udp_ret s \<noteq> None \<and> up_thread s = Left \<and> down_thread s = Left) \<or>
       (\<not> udp_closed s \<and> \<not> udp_cancelled c \<and> up_thread s = InLoop \<and> down_thread s = InLoop \<and>
        unread_in s = [] \<and> unread_out s = []))"
proof -
  have "n \<le> udp_work (udp_start c w)" using udp.steps_bounded [OF assms] by simp
  then have "n \<le> length (udp_inputs c) + length (udp_outputs c) + 7" by (simp add: udp_work_def udp_start_def)
  with udp_progress [OF udp.after_steps [OF assms]] show ?thesis by blast
qed

theorem udp_association_ends_witness:
  "Suc 0 \<le> length (udp_inputs ending_conn) + length (udp_outputs ending_conn) + 7"
proof -
  have "(udp_step sample_env sample_relay ending_conn sample_server_relay ''fixed'' ^^ Suc 0)
      (udp_start ending_conn sample_world) ended_association"
    using sample_association by (intro relpowp_Suc_I [OF relpowp_0_I])
  from udp_association_ends [OF this] show ?thesis by blast
qed

end
