(* ===== verification/Node_Lifecycle.thy ===== *)
theory Node_Lifecycle
  imports Run_Service
begin

text \<open>
  The life of a node, \<open>(*Service).Run\<close> (\<open>internal/node/service.go\<close>) with the goroutines it starts:
  the accept loops and their connections (\<open>Accept_Loop\<close>), the admin server and the reporter, which
  it counts in one wait group, the channel of their errors, the context and the shutdown.  A step is
  one action of one of them; \<open>Run_Service\<close> has the function this machine computes.
\<close>

section \<open>State\<close>

text \<open>
  Where \<open>Run\<close> is: opening the inbounds that are left, before the reporter, in its \<open>select\<close>, and
  then, with the value it will return, before each of the calls that stop the node.
\<close>

datatype main_phase =
    Opening "InboundConfig list"
  | StartReporter
  | Selecting
  | Cancelling "go_error option"
  | ClosingAll "go_error option"
  | ShuttingDown "go_error option"
  | WaitingWorkers "go_error option"
  | WaitingConns "go_error option"
  | Finished "go_error option"

datatype admin_stage = NoAdmin | Serving | ServeReturned go_error | AdminDone

datatype reporter_stage = NoReporter | Reporting | ReporterDone

record life =
  lf_phase :: main_phase
  lf_service :: Service
  lf_closers :: "string list"
  lf_opened :: "InboundConfig list"
  lf_node :: node_state
  lf_ctx :: "go_error option"
  lf_closed :: bool
  lf_shutdown :: bool
  lf_accepted :: "string set"
  lf_loops_done :: "string set"
  lf_admin :: admin_stage
  lf_reporter :: reporter_stage
  lf_errCh :: "go_error list"
  lf_grace :: bool

definition life_start :: "Service \<Rightarrow> life" where
  "life_start s =
     \<lparr>lf_phase = Opening (c_Inbounds (sv_cfg s)), lf_service = s, lf_closers = [], lf_opened = [],
      lf_node = node_start (sv_metrics s), lf_ctx = None, lf_closed = False, lf_shutdown = False,
      lf_accepted = {}, lf_loops_done = {}, lf_admin = NoAdmin, lf_reporter = NoReporter, lf_errCh = [], lf_grace = False\<rparr>"

section \<open>Steps\<close>

definition err_capacity :: "Config \<Rightarrow> nat" where
  "err_capacity cfg = length (c_Inbounds cfg) + 1"

text \<open>What \<open>wg.Wait\<close> waits for.\<close>

definition workers_done :: "life \<Rightarrow> bool" where
  "workers_done s \<longleftrightarrow>
     (\<forall>i \<in> set (lf_opened s). i_Name i \<in> lf_loops_done s) \<and>
     lf_admin s \<in> {NoAdmin, AdminDone} \<and> lf_reporter s \<in> {NoReporter, ReporterDone}"

text \<open>The goroutine of \<open>Run\<close> itself.\<close>

inductive main_step :: "listen_fun \<Rightarrow> life \<Rightarrow> life \<Rightarrow> bool" for Listen :: listen_fun where
  listens: "lf_phase s = Opening (i # rest) \<Longrightarrow> Listen (lf_closers s) (i_Listen i) = Inr addr \<Longrightarrow>
     main_step Listen s
       (s\<lparr>lf_phase := Opening rest, lf_closers := lf_closers s @ [addr], lf_opened := lf_opened s @ [i],
          lf_service := setInboundAddress (i_Name i) addr (lf_service s)\<rparr>)"
| listen_fails: "lf_phase s = Opening (i # rest) \<Longrightarrow> Listen (lf_closers s) (i_Listen i) = Inl err \<Longrightarrow>
     main_step Listen s
       (s\<lparr>lf_phase := Cancelling (Some (WrapQ ''listen inbound'' (i_Name i) err))\<rparr>)"
| admin_starts: "lf_phase s = Opening [] \<Longrightarrow>
     startAdmin (Listen (lf_closers s)) (lf_service s) = Inr (listener, service) \<Longrightarrow>
     main_step Listen s
       (s\<lparr>lf_phase := StartReporter, lf_service := service,
          lf_closers := lf_closers s @ (case listener of None \<Rightarrow> [] | Some addr \<Rightarrow> [addr]),
          lf_admin := (if listener = None then NoAdmin else Serving)\<rparr>)"
| admin_fails: "lf_phase s = Opening [] \<Longrightarrow>
     startAdmin (Listen (lf_closers s)) (lf_service s) = Inl err \<Longrightarrow>
     main_step Listen s (s\<lparr>lf_phase := Cancelling (Some err)\<rparr>)"
| reporter_starts: "lf_phase s = StartReporter \<Longrightarrow>
     main_step Listen s
       (s\<lparr>lf_phase := Selecting,
          lf_reporter := (if c_Kboard (sv_cfg (lf_service s)) = None then NoReporter else Reporting)\<rparr>)"
| context_ended: "lf_phase s = Selecting \<Longrightarrow> lf_ctx s = Some err \<Longrightarrow>
     main_step Listen s (s\<lparr>lf_phase := Cancelling (run_result err)\<rparr>)"
| worker_failed: "lf_phase s = Selecting \<Longrightarrow> lf_errCh s = err # rest \<Longrightarrow>
     main_step Listen s (s\<lparr>lf_phase := Cancelling (run_result err), lf_errCh := rest\<rparr>)"
| cancels: "lf_phase s = Cancelling res \<Longrightarrow>
     main_step Listen s
       (s\<lparr>lf_phase := ClosingAll res,
          lf_ctx := (case lf_ctx s of None \<Rightarrow> Some CtxCanceled | Some err \<Rightarrow> Some err)\<rparr>)"
| closes: "lf_phase s = ClosingAll res \<Longrightarrow>
     main_step Listen s (s\<lparr>lf_phase := ShuttingDown res, lf_closed := True\<rparr>)"
| shuts_down: "lf_phase s = ShuttingDown res \<Longrightarrow>
     main_step Listen s (s\<lparr>lf_phase := WaitingWorkers res, lf_shutdown := (lf_admin s \<noteq> NoAdmin)\<rparr>)"
| workers_waited: "lf_phase s = WaitingWorkers res \<Longrightarrow> workers_done s \<Longrightarrow>
     main_step Listen s (s\<lparr>lf_phase := WaitingConns res\<rparr>)"
| conns_waited: "lf_phase s = WaitingConns res \<Longrightarrow> wait_group (lf_node s) = 0 \<Longrightarrow>
     main_step Listen s (s\<lparr>lf_phase := Finished res\<rparr>)"
| grace_elapsed: "lf_phase s = WaitingConns res \<Longrightarrow>
     main_step Listen s (s\<lparr>lf_phase := Finished res, lf_grace := True\<rparr>)"

text \<open>
  The goroutines it starts.  A loop accepts a connection and then refuses it or starts to serve it;
  in between, its listener may be closed.  A loop that has returned sends its error, unless that is
  \<open>context.Canceled\<close>, and is done; likewise the admin server with \<open>http.ErrServerClosed\<close>, which
  \<open>Serve\<close> returns exactly after \<open>Shutdown\<close>.  Closed listeners accept nothing more.
\<close>

definition http_ErrServerClosed :: go_error where
  "http_ErrServerClosed = Ext ''http: Server closed''"

inductive worker_step :: "env \<Rightarrow> life \<Rightarrow> life \<Rightarrow> bool" for E :: env where
  loop_accepts: "i \<in> set (lf_opened s) \<Longrightarrow> returned (loops (lf_node s) (i_Name i)) = None \<Longrightarrow>
     i_Name i \<notin> lf_accepted s \<Longrightarrow> \<not> lf_closed s \<Longrightarrow>
     worker_step E s (s\<lparr>lf_accepted := insert (i_Name i) (lf_accepted s)\<rparr>)"
| loop_serves: "i \<in> set (lf_opened s) \<Longrightarrow> i_Name i \<in> lf_accepted s \<Longrightarrow>
     worker_step E s
       (s\<lparr>lf_accepted := lf_accepted s - {i_Name i}, lf_node := accept_conn i (lf_node s)\<rparr>)"
| loop_fails: "i \<in> set (lf_opened s) \<Longrightarrow> returned (loops (lf_node s) (i_Name i)) = None \<Longrightarrow>
     i_Name i \<notin> lf_accepted s \<Longrightarrow>
     worker_step E s (s\<lparr>lf_node := loop_failed E i (lf_ctx s \<noteq> None) err (lf_node s)\<rparr>)"
| loop_ends: "i \<in> set (lf_opened s) \<Longrightarrow> returned (loops (lf_node s) (i_Name i)) = Some err \<Longrightarrow>
     i_Name i \<notin> lf_loops_done s \<Longrightarrow> errors_is err CtxCanceled \<Longrightarrow>
     worker_step E s (s\<lparr>lf_loops_done := insert (i_Name i) (lf_loops_done s)\<rparr>)"
| loop_sends: "i \<in> set (lf_opened s) \<Longrightarrow> returned (loops (lf_node s) (i_Name i)) = Some err \<Longrightarrow>
     i_Name i \<notin> lf_loops_done s \<Longrightarrow> \<not> errors_is err CtxCanceled \<Longrightarrow>
     length (lf_errCh s) < err_capacity (sv_cfg (lf_service s)) \<Longrightarrow>
     worker_step E s (s\<lparr>lf_loops_done := insert (i_Name i) (lf_loops_done s), lf_errCh := lf_errCh s @ [err]\<rparr>)"
| serve_returns: "lf_admin s = Serving \<Longrightarrow> errors_is err http_ErrServerClosed \<longleftrightarrow> lf_shutdown s \<Longrightarrow>
     worker_step E s (s\<lparr>lf_admin := ServeReturned err\<rparr>)"
| admin_ends: "lf_admin s = ServeReturned err \<Longrightarrow> errors_is err http_ErrServerClosed \<Longrightarrow>
     worker_step E s (s\<lparr>lf_admin := AdminDone\<rparr>)"
| admin_sends: "lf_admin s = ServeReturned err \<Longrightarrow> \<not> errors_is err http_ErrServerClosed \<Longrightarrow>
     length (lf_errCh s) < err_capacity (sv_cfg (lf_service s)) \<Longrightarrow>
     worker_step E s (s\<lparr>lf_admin := AdminDone, lf_errCh := lf_errCh s @ [Wrap ''admin'' err]\<rparr>)"
| reporter_ends: "lf_reporter s = Reporting \<Longrightarrow> lf_ctx s \<noteq> None \<Longrightarrow>
     worker_step E s (s\<lparr>lf_reporter := ReporterDone\<rparr>)"
| serves_conn: "conn_step (c_Inbounds (sv_cfg (lf_service s))) (lf_node s) n \<Longrightarrow>
     worker_step E s (s\<lparr>lf_node := n\<rparr>)"

text \<open>The whole node; its context may end at any time, cancelled or past its deadline.\<close>

inductive life_step :: "env \<Rightarrow> listen_fun \<Rightarrow> life \<Rightarrow> life \<Rightarrow> bool"
  for E :: env and Listen :: listen_fun
where
  main: "main_step Listen s t \<Longrightarrow> life_step E Listen s t"
| worker: "worker_step E s t \<Longrightarrow> life_step E Listen s t"
| context_ends: "lf_ctx s = None \<Longrightarrow> err \<in> {CtxCanceled, CtxDeadline} \<Longrightarrow>
     life_step E Listen s (s\<lparr>lf_ctx := Some err\<rparr>)"

section \<open>Invariants\<close>

text \<open>How far \<open>Run\<close> still has to go, and its value once that is settled.\<close>

fun main_rank :: "main_phase \<Rightarrow> nat" where
  "main_rank (Opening rest) = 8 + length rest"
| "main_rank StartReporter = 7"
| "main_rank Selecting = 6"
| "main_rank (Cancelling res) = 5"
| "main_rank (ClosingAll res) = 4"
| "main_rank (ShuttingDown res) = 3"
| "main_rank (WaitingWorkers res) = 2"
| "main_rank (WaitingConns res) = 1"
| "main_rank (Finished res) = 0"

fun phase_result :: "main_phase \<Rightarrow> go_error option option" where
  "phase_result (Cancelling res) = Some res"
| "phase_result (ClosingAll res) = Some res"
| "phase_result (ShuttingDown res) = Some res"
| "phase_result (WaitingWorkers res) = Some res"
| "phase_result (WaitingConns res) = Some res"
| "phase_result (Finished res) = Some res"
| "phase_result _ = None"

abbreviation life_inbounds :: "Service \<Rightarrow> InboundConfig list" where
  "life_inbounds s0 \<equiv> c_Inbounds (sv_cfg s0)"

text \<open>The errors a worker sends, and what can end the \<open>select\<close>.\<close>

definition worker_error :: "env \<Rightarrow> InboundConfig list \<Rightarrow> go_error \<Rightarrow> bool" where
  "worker_error E ins e \<longleftrightarrow>
     (\<exists>i \<in> set ins. \<exists>err. e = accept_error E (i_Name i) False err \<and> \<not> errors_is e CtxCanceled) \<or>
     (\<exists>err. e = Wrap ''admin'' err \<and> \<not> errors_is err http_ErrServerClosed)"

definition event_ok :: "env \<Rightarrow> InboundConfig list \<Rightarrow> run_event \<Rightarrow> bool" where
  "event_ok E ins ev \<longleftrightarrow>
     (case ev of ContextDone e \<Rightarrow> e \<in> {CtxCanceled, CtxDeadline} | WorkerFailed e \<Rightarrow> worker_error E ins e)"

text \<open>The machine follows the function \<open>Run\<close>.\<close>

definition run_matches ::
  "listen_fun \<Rightarrow> Service \<Rightarrow> run_event \<Rightarrow> go_error option \<Rightarrow> string list \<Rightarrow> Service \<Rightarrow> bool"
where
  "run_matches Listen s0 ev res closers s \<longleftrightarrow>
     (\<forall>finish. ru_error (Run Listen ev finish s0) = res \<and> ru_closed (Run Listen ev finish s0) = closers \<and>
        ru_service (Run Listen ev finish s0) = s)"

fun startup_inv :: "env \<Rightarrow> listen_fun \<Rightarrow> Service \<Rightarrow> main_phase \<Rightarrow> life \<Rightarrow> bool" where
  "startup_inv E Listen s0 (Opening rest) s \<longleftrightarrow>
     lf_opened s @ rest = life_inbounds s0 \<and> lf_admin s = NoAdmin \<and> lf_reporter s = NoReporter \<and>
     start_inbounds Listen (life_inbounds s0) [] s0 = start_inbounds Listen rest (lf_closers s) (lf_service s)"
| "startup_inv E Listen s0 StartReporter s \<longleftrightarrow>
     lf_reporter s = NoReporter \<and> (\<forall>ev. run_matches Listen s0 ev (run_result (run_error ev)) (lf_closers s) (lf_service s))"
| "startup_inv E Listen s0 Selecting s \<longleftrightarrow> (\<forall>ev. run_matches Listen s0 ev (run_result (run_error ev)) (lf_closers s) (lf_service s))"
| "startup_inv E Listen s0 phase s \<longleftrightarrow>
     (\<exists>ev. event_ok E (life_inbounds s0) ev \<and> run_matches Listen s0 ev (the (phase_result phase)) (lf_closers s) (lf_service s))"

definition node_inv :: "env \<Rightarrow> Service \<Rightarrow> life \<Rightarrow> bool" where
  "node_inv E s0 s \<longleftrightarrow>
     sv_cfg (lf_service s) = sv_cfg s0 \<and> set (lf_opened s) \<subseteq> set (life_inbounds s0) \<and>
     (accept_step E (life_inbounds s0))\<^sup>*\<^sup>* (node_start (sv_metrics s0)) (lf_node s) \<and>
     (\<forall>name e. returned (loops (lf_node s) name) = Some e \<longrightarrow> (\<exists>cancelled err. e = accept_error E name cancelled err)) \<and>
     (\<forall>name \<in> lf_accepted s. returned (loops (lf_node s) name) = None) \<and>
     (\<forall>name \<in> lf_loops_done s. returned (loops (lf_node s) name) \<noteq> None)"

text \<open>The channel holds at most one error of each worker that is done.\<close>

definition channel_inv :: "env \<Rightarrow> Service \<Rightarrow> life \<Rightarrow> bool" where
  "channel_inv E s0 s \<longleftrightarrow>
     lf_loops_done s \<subseteq> i_Name ` set (lf_opened s) \<and>
     length (lf_errCh s) \<le> card (lf_loops_done s) + (if lf_admin s = AdminDone then 1 else 0) \<and>
     (\<forall>e \<in> set (lf_errCh s). worker_error E (life_inbounds s0) e)"

definition stop_inv :: "life \<Rightarrow> bool" where
  "stop_inv s \<longleftrightarrow>
     (lf_closed s \<longleftrightarrow> main_rank (lf_phase s) \<le> 3) \<and>
     (lf_shutdown s \<longleftrightarrow> main_rank (lf_phase s) \<le> 2 \<and> lf_admin s \<noteq> NoAdmin) \<and>
     set_option (lf_ctx s) \<subseteq> {CtxCanceled, CtxDeadline} \<and>
     (main_rank (lf_phase s) \<le> 4 \<longrightarrow> lf_ctx s \<noteq> None) \<and>
     (main_rank (lf_phase s) \<le> 1 \<longrightarrow> workers_done s) \<and>
     (main_rank (lf_phase s) = 0 \<and> \<not> lf_grace s \<longrightarrow> wait_group (lf_node s) = 0)"

definition life_inv :: "env \<Rightarrow> listen_fun \<Rightarrow> Service \<Rightarrow> life \<Rightarrow> bool" where
  "life_inv E Listen s0 s \<longleftrightarrow>
     node_inv E s0 s \<and> startup_inv E Listen s0 (lf_phase s) s \<and> channel_inv E s0 s \<and> stop_inv s"

subsection \<open>The accept loops\<close>

lemma conn_step_facts:
  "conn_step ins s t \<Longrightarrow>
     returned (loops t name) = returned (loops s name) \<and> wait_group t \<le> wait_group s \<and>
     refused_conns t = refused_conns s"
  by (induction rule: conn_step.induct) (auto simp: give_slot_def)

lemma accept_conn_returned [simp]:
  "returned (loops (accept_conn i s) name) = returned (loops s name)"
  by (simp add: accept_conn_def take_slot_def)

lemma loop_failed_returned [simp]:
  "returned (loops (loop_failed E i c err s) name) =
     (if name = i_Name i then Some (accept_error E name c err) else returned (loops s name))"
  "wait_group (loop_failed E i c err s) = wait_group s" "refused_conns (loop_failed E i c err s) = refused_conns s"
  by (simp_all add: loop_failed_def)

lemma node_inv_start: "node_inv E s (life_start s)"
  by (simp add: node_inv_def life_start_def node_start_def loop_start_def)

lemma startAdmin_cfg: "startAdmin L s = Inr (l, s') \<Longrightarrow> sv_cfg s' = sv_cfg s"
  by (auto simp: startAdmin_def setAdminAddress_def split: if_splits sum.splits)

lemma node_inv_main:
  assumes "main_step Listen s t" and inv: "node_inv E s0 s" and start: "startup_inv E Listen s0 (lf_phase s) s"
  shows "node_inv E s0 t"
  using assms(1)
proof (cases rule: main_step.cases)
  case (listens i rest addr)
  then have "i \<in> set (life_inbounds s0)" using start by (metis startup_inv.simps(1) in_set_conv_decomp)
  with inv listens show ?thesis by (simp add: node_inv_def)
next
  case (admin_starts listener service)
  with inv show ?thesis by (simp add: node_inv_def startAdmin_cfg)
qed (use inv in \<open>auto simp: node_inv_def\<close>)

lemma node_inv_worker:
  assumes "worker_step E s t" and inv: "node_inv E s0 s"
  shows "node_inv E s0 t"
  using assms(1)
proof (cases rule: worker_step.cases)
  case (loop_serves i)
  have "(accept_step E (life_inbounds s0)) (lf_node s) (accept_conn i (lf_node s))"
    using loop_serves inv by (intro accept_step.accepts) (auto simp: node_inv_def)
  with inv loop_serves show ?thesis by (auto simp: node_inv_def intro: rtranclp.rtrancl_into_rtrancl)
next
  case (loop_fails i err)
  have "(accept_step E (life_inbounds s0)) (lf_node s) (loop_failed E i (lf_ctx s \<noteq> None) err (lf_node s))"
    using loop_fails inv by (intro accept_step.accept_failed) (auto simp: node_inv_def)
  with inv loop_fails show ?thesis by (auto simp: node_inv_def intro: rtranclp.rtrancl_into_rtrancl)
next
  case (serves_conn n)
  then have "(accept_step E (life_inbounds s0)) (lf_node s) n"
    using inv by (intro accept_step.connection) (simp add: node_inv_def)
  with inv serves_conn show ?thesis
    by (auto simp: node_inv_def conn_step_facts intro: rtranclp.rtrancl_into_rtrancl)
qed (use inv in \<open>auto simp: node_inv_def\<close>)

subsection \<open>Startup\<close>

lemma startup_inv_start: "startup_inv E Listen s (lf_phase (life_start s)) (life_start s)"
  by (simp add: life_start_def)

lemma startup_inv_same:
  assumes "startup_inv E Listen s0 phase s" and "lf_closers t = lf_closers s" "lf_service t = lf_service s"
    and "lf_opened t = lf_opened s" "lf_admin s = NoAdmin \<longrightarrow> lf_admin t = NoAdmin"
      "lf_reporter s = NoReporter \<longrightarrow> lf_reporter t = NoReporter"
  shows "startup_inv E Listen s0 phase t"
  using assms by (cases phase) simp_all

lemma startup_inv_result:
  "phase_result phase = Some res \<Longrightarrow>
     startup_inv E Listen s0 phase s \<longleftrightarrow>
       (\<exists>ev. event_ok E (life_inbounds s0) ev \<and> run_matches Listen s0 ev res (lf_closers s) (lf_service s))"
  by (cases phase) auto

lemma failed_start_matches:
  assumes "startup_inv E Listen s0 (Opening rest) s"
    and "(case rest of
            [] \<Rightarrow> startAdmin (Listen (lf_closers s)) (lf_service s) = Inl err
          | i # _ \<Rightarrow> \<exists>e. Listen (lf_closers s) (i_Listen i) = Inl e \<and> err = WrapQ ''listen inbound'' (i_Name i) e)"
  shows "run_matches Listen s0 ev (Some err) (lf_closers s) (lf_service s)"
  using assms by (cases rest) (auto simp: run_matches_def Run_def)

lemma started_matches:
  assumes "startup_inv E Listen s0 (Opening []) s"
    and "startAdmin (Listen (lf_closers s)) (lf_service s) = Inr (listener, service)"
  shows "run_matches Listen s0 ev (run_result (run_error ev))
    (lf_closers s @ (case listener of None \<Rightarrow> [] | Some addr \<Rightarrow> [addr])) service"
  using assms by (auto simp: run_matches_def Run_def Let_def)

lemma startup_inv_main:
  assumes "main_step Listen s t" and inv: "startup_inv E Listen s0 (lf_phase s) s"
    and chan: "channel_inv E s0 s" and stop: "stop_inv s"
  shows "startup_inv E Listen s0 (lf_phase t) t"
proof -
  have canceled: "event_ok E (life_inbounds s0) (ContextDone CtxCanceled)" by (simp add: event_ok_def)
  show ?thesis
    using assms(1)
  proof (cases rule: main_step.cases)
    case (listen_fails i rest err)
    then have "run_matches Listen s0 (ContextDone CtxCanceled) (Some (WrapQ ''listen inbound'' (i_Name i) err))
        (lf_closers s) (lf_service s)"
      using inv by (intro failed_start_matches [where rest = "i # rest"]) auto
    with listen_fails canceled show ?thesis by auto
  next
    case (admin_fails err)
    then have "run_matches Listen s0 (ContextDone CtxCanceled) (Some err) (lf_closers s) (lf_service s)"
      using inv by (intro failed_start_matches [where rest = "[]"]) auto
    with admin_fails canceled show ?thesis by auto
  next
    case (admin_starts listener service)
    then show ?thesis using inv started_matches by simp
  next
    case (context_ended err)
    then have "event_ok E (life_inbounds s0) (ContextDone err)"
      using stop by (auto simp: event_ok_def stop_inv_def)
    moreover have "run_matches Listen s0 (ContextDone err) (run_result err) (lf_closers t) (lf_service t)"
      using context_ended inv by (auto simp: run_error_def split: run_event.splits)
    ultimately show ?thesis using context_ended(1) by auto
  next
    case (worker_failed err rest)
    then have "event_ok E (life_inbounds s0) (WorkerFailed err)"
      using chan by (auto simp: event_ok_def channel_inv_def)
    moreover have "run_matches Listen s0 (WorkerFailed err) (run_result err) (lf_closers t) (lf_service t)"
      using worker_failed inv by (auto simp: run_error_def split: run_event.splits)
    ultimately show ?thesis using worker_failed(1) by auto
  qed (use inv in auto)
qed

lemma startup_inv_worker:
  assumes "worker_step E s t" and "startup_inv E Listen s0 (lf_phase s) s"
  shows "startup_inv E Listen s0 (lf_phase t) t"
  using assms(1)
  by (cases rule: worker_step.cases) (auto intro!: startup_inv_same [OF assms(2)])

subsection \<open>The channel\<close>

lemma channel_inv_start: "channel_inv E s (life_start s)"
  by (simp add: channel_inv_def life_start_def)

lemma channel_finite: "channel_inv E s0 s \<Longrightarrow> finite (lf_loops_done s)"
  unfolding channel_inv_def by (meson finite_imageI finite_set finite_subset)

lemma channel_inv_main:
  assumes "main_step Listen s t" and inv: "channel_inv E s0 s" and start: "startup_inv E Listen s0 (lf_phase s) s"
  shows "channel_inv E s0 t"
  using assms(1)
  by (cases rule: main_step.cases) (use inv start in \<open>auto simp: channel_inv_def\<close>)

text \<open>A loop that has returned another error than \<open>context.Canceled\<close> failed to accept.\<close>

lemma returned_worker_error:
  assumes "node_inv E s0 s" and "i \<in> set (lf_opened s)"
    and "returned (loops (lf_node s) (i_Name i)) = Some e" and "\<not> errors_is e CtxCanceled"
  shows "worker_error E (life_inbounds s0) e"
proof -
  obtain cancelled err where e: "e = accept_error E (i_Name i) cancelled err"
    using assms(1,3) unfolding node_inv_def by blast
  with assms(4) have "\<not> cancelled" by (auto simp: accept_error_def)
  with e assms show ?thesis by (auto simp: worker_error_def node_inv_def)
qed

lemma channel_inv_worker:
  assumes "worker_step E s t" and inv: "channel_inv E s0 s" and node: "node_inv E s0 s"
  shows "channel_inv E s0 t"
  using assms(1)
proof (cases rule: worker_step.cases)
  case (loop_ends i err)
  with inv channel_finite [OF inv] show ?thesis by (auto simp: channel_inv_def)
next
  case (loop_sends i err)
  moreover have "worker_error E (life_inbounds s0) err"
    using loop_sends by (intro returned_worker_error [OF node])
  ultimately show ?thesis using inv channel_finite [OF inv] by (auto simp: channel_inv_def)
next
  case (admin_sends err)
  with inv show ?thesis by (auto simp: channel_inv_def worker_error_def)
qed (use inv in \<open>auto simp: channel_inv_def\<close>)

text \<open>A worker that is not done finds room for its error.\<close>

lemma room_in_channel:
  assumes node: "node_inv E s0 s" and chan: "channel_inv E s0 s"
    and "(\<exists>i \<in> set (lf_opened s). i_Name i \<notin> lf_loops_done s) \<or> lf_admin s \<noteq> AdminDone"
  shows "length (lf_errCh s) < err_capacity (sv_cfg (lf_service s))"
proof -
  define names where "names = i_Name ` set (lf_opened s)"
  have subset: "lf_loops_done s \<subseteq> names" and len: "length (lf_errCh s) \<le>
      card (lf_loops_done s) + (if lf_admin s = AdminDone then 1 else 0)"
    using chan by (auto simp: channel_inv_def names_def)
  have "names \<subseteq> set (map i_Name (life_inbounds s0))" using node by (auto simp: node_inv_def names_def)
  then have card: "card names \<le> length (life_inbounds s0)"
    by (metis card_length card_mono finite_set le_trans length_map)
  have fin: "finite names" by (simp add: names_def)
  have "card (lf_loops_done s) \<le> card names" using subset fin by (rule card_mono [rotated])
  moreover have "card (lf_loops_done s) < card names" if "\<exists>i \<in> set (lf_opened s). i_Name i \<notin> lf_loops_done s"
    using that subset fin by (intro psubset_card_mono) (auto simp: names_def)
  ultimately show ?thesis
    using assms(3) len card node by (auto simp: err_capacity_def node_inv_def split: if_splits)
qed

subsection \<open>Stopping\<close>

lemma stop_inv_start: "stop_inv (life_start s)"
  by (simp add: stop_inv_def life_start_def)

lemma stop_inv_main:
  assumes "main_step Listen s t" and inv: "stop_inv s" and start: "startup_inv E Listen s0 (lf_phase s) s"
  shows "stop_inv t"
  using assms(1)
  by (cases rule: main_step.cases)
    (use inv start in \<open>auto simp: stop_inv_def workers_done_def split: option.splits\<close>)

text \<open>When the workers are done, only connections go on.\<close>

lemma done_worker_step:
  assumes "worker_step E s t" and "workers_done s" and node: "node_inv E s0 s"
  shows "\<exists>n. conn_step (life_inbounds s0) (lf_node s) n \<and> t = s\<lparr>lf_node := n\<rparr>"
proof -
  have accepted: "\<forall>name \<in> lf_accepted s. returned (loops (lf_node s) name) = None"
    using node by (simp add: node_inv_def)
  have returned: "returned (loops (lf_node s) (i_Name i)) \<noteq> None" and loops: "i_Name i \<in> lf_loops_done s"
    if "i \<in> set (lf_opened s)" for i
    using that assms(2) node by (auto simp: workers_done_def node_inv_def)
  have idle: "i_Name i \<notin> lf_accepted s" if "i \<in> set (lf_opened s)" for i
    using returned [OF that] accepted by metis
  have others: "lf_admin s \<in> {NoAdmin, AdminDone}" "lf_reporter s \<noteq> Reporting"
    "sv_cfg (lf_service s) = sv_cfg s0"
    using assms(2) node by (auto simp: workers_done_def node_inv_def)
  show ?thesis
    using assms(1) by (cases rule: worker_step.cases) (use returned loops idle others in auto)
qed

lemma stop_inv_worker:
  assumes "worker_step E s t" and inv: "stop_inv s" and node: "node_inv E s0 s"
  shows "stop_inv t"
proof (cases "main_rank (lf_phase s) \<le> 1")
  case True
  then have "workers_done s" using inv by (simp add: stop_inv_def)
  with done_worker_step [OF assms(1) this node] obtain n where
    n: "t = s\<lparr>lf_node := n\<rparr>" "wait_group n \<le> wait_group (lf_node s)"
    by (metis conn_step_facts)
  moreover have "workers_done t = workers_done s" by (simp add: n(1) workers_done_def)
  ultimately show ?thesis using inv by (auto simp: stop_inv_def)
next
  case False
  with assms(1) inv show ?thesis by (cases rule: worker_step.cases) (simp_all add: stop_inv_def)
qed

lemma life_inv_start: "life_inv E Listen s (life_start s)"
  by (simp add: life_inv_def node_inv_start startup_inv_start channel_inv_start stop_inv_start
      del: startup_inv.simps)

lemma life_inv_step:
  assumes "life_step E Listen s t" and inv: "life_inv E Listen s0 s"
  shows "life_inv E Listen s0 t"
  using assms(1)
proof (cases rule: life_step.cases)
  case main
  with inv show ?thesis
    unfolding life_inv_def using node_inv_main startup_inv_main channel_inv_main stop_inv_main by blast
next
  case worker
  with inv show ?thesis
    unfolding life_inv_def using node_inv_worker startup_inv_worker channel_inv_worker stop_inv_worker by blast
next
  case (context_ends err)
  then have "startup_inv E Listen s0 (lf_phase t) t"
    using inv by (auto simp: life_inv_def intro!: startup_inv_same [of E Listen s0 "lf_phase s" s])
  with context_ends inv show ?thesis
    by (auto simp: life_inv_def node_inv_def channel_inv_def stop_inv_def workers_done_def)
qed

interpretation life: invariant_system "life_step E Listen" "life_start s0" "life_inv E Listen s0"
  for E Listen s0
  by unfold_locales (simp_all add: life_inv_start life_inv_step)

section \<open>Progress\<close>

text \<open>
  What is left to do.  An accepted connection counts more than a connection being served, so that
  serving it is progress.
\<close>

definition accept_work :: "life \<Rightarrow> InboundConfig \<Rightarrow> nat" where
  "accept_work s i =
     (if i_Name i \<in> lf_loops_done s then 0
      else if returned (loops (lf_node s) (i_Name i)) = None then 2 else 1) +
     (if i_Name i \<in> lf_accepted s then 5 else 0)"

lemma accept_work_updates [simp]:
  "accept_work (s\<lparr>lf_phase := p\<rparr>) = accept_work s" "accept_work (s\<lparr>lf_ctx := c\<rparr>) = accept_work s"
  "accept_work (s\<lparr>lf_closed := b\<rparr>) = accept_work s" "accept_work (s\<lparr>lf_shutdown := b\<rparr>) = accept_work s"
  "accept_work (s\<lparr>lf_admin := a\<rparr>) = accept_work s" "accept_work (s\<lparr>lf_reporter := r\<rparr>) = accept_work s"
  "accept_work (s\<lparr>lf_errCh := ch\<rparr>) = accept_work s" "accept_work (s\<lparr>lf_grace := b\<rparr>) = accept_work s"
  by (simp_all add: fun_eq_iff accept_work_def)

lemma accept_work_node:
  "(\<And>name. returned (loops n name) = returned (loops (lf_node s) name)) \<Longrightarrow>
     accept_work (s\<lparr>lf_node := n\<rparr>) = accept_work s"
  by (simp add: fun_eq_iff accept_work_def)

fun admin_work :: "admin_stage \<Rightarrow> nat" where
  "admin_work Serving = 2" | "admin_work (ServeReturned err) = 1" | "admin_work _ = 0"

definition life_work :: "life \<Rightarrow> nat" where
  "life_work s =
     main_rank (lf_phase s) + sum_list (map (accept_work s) (lf_opened s)) + admin_work (lf_admin s) +
     (if lf_reporter s = Reporting then 1 else 0) +
     total_over (c_Inbounds (sv_cfg (lf_service s))) loop_work (lf_node s)"

text \<open>The steps that bring the node nearer to its end.\<close>

definition stopping_step :: "env \<Rightarrow> listen_fun \<Rightarrow> life \<Rightarrow> life \<Rightarrow> bool" where
  "stopping_step E Listen s t \<longleftrightarrow> life_step E Listen s t \<and> life_work t < life_work s"

interpretation stopping: terminating_system "stopping_step E Listen" s "(life_step E Listen)\<^sup>*\<^sup>* s" life_work
  for E Listen s
  by unfold_locales (auto simp: stopping_step_def intro: rtranclp.rtrancl_into_rtrancl)

lemma sum_list_lower:
  fixes f g :: "'a \<Rightarrow> nat"
  assumes "x \<in> set xs" and "g x + k \<le> f x" and "\<And>y. g y \<le> f y"
  shows "sum_list (map g xs) + k \<le> sum_list (map f xs)"
  using assms(1)
proof (induction xs)
  case (Cons y xs)
  have "sum_list (map g xs) \<le> sum_list (map f xs)" by (intro sum_list_mono assms(3))
  with Cons assms(2) assms(3) [of y] show ?case by (cases "x = y") auto
qed simp

lemma total_over_accept_conn:
  assumes "i \<in> set ins" and "distinct (map i_Name ins)"
  shows "total_over ins loop_work (accept_conn i n) \<le> total_over ins loop_work n + 4"
proof -
  have "total_over ins loop_work (update_loop (i_Name i) (\<lambda>l. (take_slot i l)\<lparr>started := started l + 1\<rparr>) n)
      + loop_work (loops n (i_Name i)) = total_over ins loop_work n + (loop_work (loops n (i_Name i)) + 4)"
    using total_over_update [OF assms, of loop_work "\<lambda>l. (take_slot i l)\<lparr>started := started l + 1\<rparr>" n]
    by (simp add: loop_work_def take_slot_def)
  moreover have "total_over ins loop_work (update_loop (i_Name i) (\<lambda>l. l\<lparr>loop_refused := loop_refused l + 1\<rparr>) n)
      = total_over ins loop_work n"
    using total_over_update [OF assms, of loop_work "\<lambda>l. l\<lparr>loop_refused := loop_refused l + 1\<rparr>" n]
    by (simp add: loop_work_def)
  ultimately show ?thesis by (simp add: accept_conn_def)
qed

lemma total_over_loop_failed [simp]:
  "total_over ins loop_work (loop_failed E i c err n) = total_over ins loop_work n"
proof -
  have "loop_work (loops (loop_failed E i c err n) name) = loop_work (loops n name)" for name
    by (simp add: loop_failed_def loop_work_def)
  then show ?thesis by (simp add: total_over_def)
qed

text \<open>A loop that is not done makes progress.\<close>

lemma loop_progress:
  assumes node: "node_inv E s0 s" and chan: "channel_inv E s0 s" and dist: "distinct (map i_Name (life_inbounds s0))"
    and i: "i \<in> set (lf_opened s)" and pending: "i_Name i \<notin> lf_loops_done s"
  shows "\<exists>t. worker_step E s t \<and> life_work t < life_work s"
proof -
  have cfg: "sv_cfg (lf_service s) = sv_cfg s0" and i_ins: "i \<in> set (life_inbounds s0)"
    using node i by (auto simp: node_inv_def)
  consider "i_Name i \<in> lf_accepted s"
    | "i_Name i \<notin> lf_accepted s" "returned (loops (lf_node s) (i_Name i)) = None"
    | err where "i_Name i \<notin> lf_accepted s" "returned (loops (lf_node s) (i_Name i)) = Some err"
    by (cases "returned (loops (lf_node s) (i_Name i))") auto
  then show ?thesis
  proof cases
    case 1
    define t where "t = s\<lparr>lf_accepted := lf_accepted s - {i_Name i}, lf_node := accept_conn i (lf_node s)\<rparr>"
    have "sum_list (map (accept_work t) (lf_opened s)) + 5 \<le> sum_list (map (accept_work s) (lf_opened s))"
      using 1 by (intro sum_list_lower [OF i]) (auto simp: accept_work_def t_def)
    then have "life_work t < life_work s"
      using total_over_accept_conn [OF i_ins dist, of "lf_node s"] by (simp add: life_work_def t_def cfg)
    with loop_serves [OF i 1] show ?thesis by (auto simp: t_def)
  next
    case 2
    define t where "t = s\<lparr>lf_node := loop_failed E i (lf_ctx s \<noteq> None) EOF (lf_node s)\<rparr>"
    have "sum_list (map (accept_work t) (lf_opened s)) + 1 \<le> sum_list (map (accept_work s) (lf_opened s))"
      using 2 pending by (intro sum_list_lower [OF i]) (auto simp: accept_work_def t_def)
    then have "life_work t < life_work s" by (simp add: life_work_def t_def)
    with loop_fails [OF i 2(2,1)] show ?thesis by (auto simp: t_def)
  next
    case (3 err)
    define t where "t = s\<lparr>lf_loops_done := insert (i_Name i) (lf_loops_done s)\<rparr>"
    have "sum_list (map (accept_work t) (lf_opened s)) + 1 \<le> sum_list (map (accept_work s) (lf_opened s))"
      using 3 pending by (intro sum_list_lower [OF i]) (auto simp: accept_work_def t_def)
    then have less: "life_work (t\<lparr>lf_errCh := ch\<rparr>) < life_work s" for ch
      by (simp add: life_work_def) (simp add: t_def)
    have room: "length (lf_errCh s) < err_capacity (sv_cfg (lf_service s))"
      using i pending by (intro room_in_channel [OF node chan]) blast
    show ?thesis
    proof (cases "errors_is err CtxCanceled")
      case True
      with loop_ends [OF i 3(2) pending] less [of "lf_errCh s"] show ?thesis by (auto simp: t_def)
    next
      case False
      with loop_sends [OF i 3(2) pending _ room] less show ?thesis by (auto simp: t_def)
    qed
  qed
qed

text \<open>So do the admin server and, once the context has ended, the reporter.\<close>

lemma admin_progress:
  assumes node: "node_inv E s0 s" and chan: "channel_inv E s0 s" and "lf_admin s \<notin> {NoAdmin, AdminDone}"
  shows "\<exists>t. worker_step E s t \<and> life_work t < life_work s"
proof -
  have less: "life_work (s\<lparr>lf_admin := a, lf_errCh := ch\<rparr>) < life_work s"
    if "admin_work a < admin_work (lf_admin s)" for a ch
    using that by (simp add: life_work_def)
  have room: "length (lf_errCh s) < err_capacity (sv_cfg (lf_service s))"
    using assms(3) by (intro room_in_channel [OF node chan]) auto
  consider "lf_admin s = Serving" | err where "lf_admin s = ServeReturned err"
    using assms(3) by (cases "lf_admin s") auto
  then show ?thesis
  proof cases
    case 1
    define err where "err = (if lf_shutdown s then http_ErrServerClosed else EOF)"
    have "errors_is err http_ErrServerClosed \<longleftrightarrow> lf_shutdown s" by (simp add: err_def http_ErrServerClosed_def)
    from serve_returns [OF 1 this] less [of "ServeReturned err" "lf_errCh s"] 1 show ?thesis by auto
  next
    case (2 err)
    show ?thesis
    proof (cases "errors_is err http_ErrServerClosed")
      case True
      from admin_ends [OF 2 True] less [of AdminDone "lf_errCh s"] 2 show ?thesis by auto
    next
      case False
      from admin_sends [OF 2 False room] less [of AdminDone] 2 show ?thesis by auto
    qed
  qed
qed

lemma workers_progress:
  assumes "node_inv E s0 s" and "channel_inv E s0 s" and "distinct (map i_Name (life_inbounds s0))"
    and "lf_ctx s \<noteq> None" and "\<not> workers_done s"
  shows "\<exists>t. worker_step E s t \<and> life_work t < life_work s"
proof -
  have "life_work (s\<lparr>lf_reporter := ReporterDone\<rparr>) < life_work s" if "lf_reporter s = Reporting"
    using that by (simp add: life_work_def)
  then have "\<exists>t. worker_step E s t \<and> life_work t < life_work s" if "lf_reporter s = Reporting"
    using that reporter_ends assms(4) by blast
  moreover have "lf_reporter s = Reporting \<or> lf_admin s \<notin> {NoAdmin, AdminDone} \<or>
      (\<exists>i \<in> set (lf_opened s). i_Name i \<notin> lf_loops_done s)"
    using assms(5) by (cases "lf_reporter s") (auto simp: workers_done_def)
  ultimately show ?thesis
    using loop_progress [OF assms(1-3)] admin_progress [OF assms(1,2)] by blast
qed

text \<open>A node that is stopping and can go no further has stopped.\<close>

lemma life_progress:
  assumes inv: "life_inv E Listen s0 s" and dist: "distinct (map i_Name (life_inbounds s0))"
    and "main_rank (lf_phase s) \<le> 5" and stuck: "\<forall>t. \<not> stopping_step E Listen s t"
  shows "(\<exists>res. lf_phase s = Finished res) \<and> wait_group (lf_node s) = 0"
proof -
  have node: "node_inv E s0 s" and chan: "channel_inv E s0 s" and stop: "stop_inv s"
    using inv by (auto simp: life_inv_def)
  have no_main: "\<not> main_step Listen s t" if "life_work t < life_work s" for t
    using stuck that by (auto simp: stopping_step_def intro: life_step.main)
  have no_worker: "\<not> worker_step E s t" if "life_work t < life_work s" for t
    using stuck that by (auto simp: stopping_step_def intro: life_step.worker)
  have less: "life_work (s\<lparr>lf_phase := p, lf_ctx := c, lf_closed := cl, lf_shutdown := sh, lf_grace := gr\<rparr>) < life_work s"
    if "main_rank p < main_rank (lf_phase s)" for p c cl sh gr
    using that by (simp add: life_work_def)
  have "\<exists>res. lf_phase s = Finished res"
  proof (cases "lf_phase s")
    case (Cancelling res)
    from cancels [OF Cancelling] no_main less [where p = "ClosingAll res" and cl = "lf_closed s" and sh = "lf_shutdown s" and gr = "lf_grace s"]
    show ?thesis by (auto simp: Cancelling)
  next
    case (ClosingAll res)
    from closes [OF ClosingAll] no_main less [where p = "ShuttingDown res" and c = "lf_ctx s" and cl = True and sh = "lf_shutdown s" and gr = "lf_grace s"]
    show ?thesis by (auto simp: ClosingAll)
  next
    case (ShuttingDown res)
    from shuts_down [OF ShuttingDown] no_main less [where p = "WaitingWorkers res" and c = "lf_ctx s" and cl = "lf_closed s" and gr = "lf_grace s"]
    show ?thesis by (auto simp: ShuttingDown)
  next
    case (WaitingWorkers res)
    then have "lf_ctx s \<noteq> None" using stop by (simp add: stop_inv_def)
    then have "workers_done s" using workers_progress [OF node chan dist] no_worker by blast
    from workers_waited [OF WaitingWorkers this] no_main
      less [where p = "WaitingConns res" and c = "lf_ctx s" and cl = "lf_closed s" and sh = "lf_shutdown s" and gr = "lf_grace s"]
    show ?thesis by (auto simp: WaitingWorkers)
  next
    case (WaitingConns res)
    from grace_elapsed [OF WaitingConns] no_main
      less [where p = "Finished res" and c = "lf_ctx s" and cl = "lf_closed s" and sh = "lf_shutdown s" and gr = True]
    show ?thesis by (auto simp: WaitingConns)
  qed (use assms(3) in auto)
  moreover have "wait_group (lf_node s) = 0"
  proof -
    have reach: "(accept_step E (life_inbounds s0))\<^sup>*\<^sup>* (node_start (sv_metrics s0)) (lf_node s)"
      and cfg: "sv_cfg (lf_service s) = sv_cfg s0" using node by (auto simp: node_inv_def)
    have "goroutines (loops (lf_node s) (i_Name i)) = 0" if i: "i \<in> set (life_inbounds s0)" for i
    proof (rule ccontr)
      assume "goroutines (loops (lf_node s) (i_Name i)) \<noteq> 0"
      with drain_step [OF i dist] obtain n where n: "conn_step (life_inbounds s0) (lf_node s) n"
        "total_over (life_inbounds s0) loop_work n < total_over (life_inbounds s0) loop_work (lf_node s)" by blast
      then have "life_work (s\<lparr>lf_node := n\<rparr>) < life_work s"
        using accept_work_node [of n s] by (simp add: life_work_def cfg conn_step_facts [OF n(1)])
      with no_worker serves_conn n(1) cfg show False by metis
    qed
    with accept_inv_reachable [OF reach dist] show ?thesis
      by (simp add: accept_inv_def total_over_def sum_list_eq_0_iff)
  qed
  ultimately show ?thesis by blast
qed

section \<open>The end of a run\<close>

text \<open>Once the value of \<open>Run\<close> is settled, it and what \<open>Run\<close> has opened stay as they are.\<close>

lemma settled_step:
  assumes "life_step E Listen s t" and "phase_result (lf_phase s) = Some res"
  shows "phase_result (lf_phase t) = Some res \<and> lf_closers t = lf_closers s \<and> lf_service t = lf_service s"
  using assms(1)
proof (cases rule: life_step.cases)
  case main
  then show ?thesis using assms(2) by (cases rule: main_step.cases) auto
next
  case worker
  then show ?thesis using assms(2) by (cases rule: worker_step.cases) auto
qed (use assms(2) in simp)

lemma settled_steps:
  assumes "(life_step E Listen)\<^sup>*\<^sup>* s t" and "phase_result (lf_phase s) = Some res"
  shows "phase_result (lf_phase t) = Some res \<and> lf_closers t = lf_closers s \<and> lf_service t = lf_service s"
  using assms by (induction rule: rtranclp_induct) (auto dest: settled_step)

lemma phase_result_rank: "phase_result p \<noteq> None \<longleftrightarrow> main_rank p \<le> 5"
  by (cases p) auto

lemma phase_result_finished: "phase_result p = Some res \<Longrightarrow> \<exists>r. p = Finished r \<Longrightarrow> p = Finished res"
  by auto

lemma stopping_steps: "(stopping_step E Listen)\<^sup>*\<^sup>* s t \<Longrightarrow> (life_step E Listen)\<^sup>*\<^sup>* s t"
  by (rule rtranclp_mono [THEN predicate2D, rotated]) (auto simp: stopping_step_def)

text \<open>A settled run can be finished, and what it leaves behind is known.\<close>

lemma settled_stops:
  assumes "life_inv E Listen s0 s" and "distinct (map i_Name (life_inbounds s0))"
    and "phase_result (lf_phase s) = Some res"
    and "(stopping_step E Listen)\<^sup>*\<^sup>* s t" and "\<forall>u. \<not> stopping_step E Listen t u"
  shows "lf_phase t = Finished res \<and> wait_group (lf_node t) = 0"
proof -
  have steps: "(life_step E Listen)\<^sup>*\<^sup>* s t" using assms(4) by (rule stopping_steps)
  then have "life_inv E Listen s0 t" using assms(1) by (induction rule: rtranclp_induct) (auto dest: life_inv_step)
  moreover have res: "phase_result (lf_phase t) = Some res" using settled_steps [OF steps assms(3)] by simp
  then have "main_rank (lf_phase t) \<le> 5" using phase_result_rank by blast
  ultimately show ?thesis
    using life_progress [OF _ assms(2) _ assms(5)] phase_result_finished [OF res] by blast
qed

lemma settled_finishes:
  assumes "life_inv E Listen s0 s" and "distinct (map i_Name (life_inbounds s0))"
    and "phase_result (lf_phase s) = Some res"
  shows "\<exists>t. (life_step E Listen)\<^sup>*\<^sup>* s t \<and> lf_phase t = Finished res \<and>
    lf_closers t = lf_closers s \<and> lf_service t = lf_service s"
proof -
  obtain t where t: "(stopping_step E Listen)\<^sup>*\<^sup>* s t" "\<forall>u. \<not> stopping_step E Listen t u"
    using stopping.runs_out [of E Listen s s] by blast
  then have "(life_step E Listen)\<^sup>*\<^sup>* s t" by (intro stopping_steps)
  with settled_stops [OF assms t] settled_steps [OF this assms(3)] show ?thesis by blast
qed

text \<open>After \<open>Run\<close> has returned, only connections that it gave up waiting for go on.\<close>

lemma finished_step:
  assumes inv: "life_inv E Listen s0 s" and "lf_phase s = Finished res" and "life_step E Listen s t"
  shows "\<exists>n. t = s\<lparr>lf_node := n\<rparr> \<and> wait_group n \<le> wait_group (lf_node s) \<and>
    refused_conns n = refused_conns (lf_node s)"
  using assms(3)
proof (cases rule: life_step.cases)
  case main
  then show ?thesis using assms(2) by (cases rule: main_step.cases) auto
next
  case worker
  have "workers_done s" "node_inv E s0 s" using inv assms(2) by (auto simp: life_inv_def stop_inv_def)
  from done_worker_step [OF worker this] show ?thesis using conn_step_facts by blast
next
  case context_ends
  then show ?thesis using inv assms(2) by (auto simp: life_inv_def stop_inv_def)
qed

lemma finished_steps:
  assumes "(life_step E Listen)\<^sup>*\<^sup>* s t" and inv: "life_inv E Listen s0 s" and "lf_phase s = Finished res"
  shows "\<exists>n. t = s\<lparr>lf_node := n\<rparr> \<and> wait_group n \<le> wait_group (lf_node s) \<and>
    refused_conns n = refused_conns (lf_node s)"
  using assms(1)
proof (induction rule: rtranclp_induct)
  case base
  show ?case by (intro exI [of _ "lf_node s"]) simp
next
  case (step t u)
  from step(1) have "life_inv E Listen s0 t" using inv by (induction rule: rtranclp_induct) (auto dest: life_inv_step)
  with step.IH assms(3) finished_step [OF _ _ step(2)] show ?case
    by (elim exE conjE) (fastforce intro: le_trans)
qed

lemma finished_facts:
  assumes "life_inv E Listen s0 s" and "lf_phase s = Finished res"
  shows "lf_closed s \<and> workers_done s \<and> (\<not> lf_grace s \<longrightarrow> wait_group (lf_node s) = 0) \<and>
    (\<exists>ev. event_ok E (life_inbounds s0) ev \<and> run_matches Listen s0 ev res (lf_closers s) (lf_service s))"
  using assms by (auto simp: life_inv_def stop_inv_def)

section \<open>Every result of the function is reached\<close>

lemma main_steps: "(main_step Listen)\<^sup>*\<^sup>* s t \<Longrightarrow> (life_step E Listen)\<^sup>*\<^sup>* s t"
  by (rule rtranclp_mono [THEN predicate2D, rotated]) (auto intro: life_step.main)

lemma startup_run:
  "start_inbounds Listen rest closers service = (None, closers', service') \<Longrightarrow>
     lf_phase s = Opening rest \<Longrightarrow> lf_closers s = closers \<Longrightarrow> lf_service s = service \<Longrightarrow>
     (main_step Listen)\<^sup>*\<^sup>* s
       (s\<lparr>lf_phase := Opening [], lf_closers := closers', lf_opened := lf_opened s @ rest, lf_service := service'\<rparr>)"
proof (induction Listen rest closers service arbitrary: s rule: start_inbounds.induct)
  case (1 Listen closers service)
  then have "s\<lparr>lf_phase := Opening [], lf_closers := closers', lf_opened := lf_opened s @ [], lf_service := service'\<rparr> = s"
    by simp
  then show ?case by simp
next
  case (2 Listen i rest closers service)
  from "2.prems" obtain addr where addr: "Listen closers (i_Listen i) = Inr addr"
    by (auto split: sum.splits)
  define t where "t = s\<lparr>lf_phase := Opening rest, lf_closers := closers @ [addr], lf_opened := lf_opened s @ [i],
    lf_service := setInboundAddress (i_Name i) addr service\<rparr>"
  have "main_step Listen s t"
    using listens [of s i rest Listen addr] "2.prems" addr by (simp add: t_def)
  moreover have "(main_step Listen)\<^sup>*\<^sup>* t
      (t\<lparr>lf_phase := Opening [], lf_closers := closers', lf_opened := lf_opened t @ rest, lf_service := service'\<rparr>)"
    using "2.prems" addr by (intro "2.IH") (simp_all add: t_def)
  ultimately show ?case by (simp add: t_def converse_rtranclp_into_rtranclp)
qed

lemma failing_startup_run:
  "start_inbounds Listen rest closers service = (Some err, closers', service') \<Longrightarrow>
     lf_phase s = Opening rest \<Longrightarrow> lf_closers s = closers \<Longrightarrow> lf_service s = service \<Longrightarrow>
     \<exists>t. (main_step Listen)\<^sup>*\<^sup>* s t \<and> lf_phase t = Cancelling (Some err) \<and>
       lf_closers t = closers' \<and> lf_service t = service'"
proof (induction Listen rest closers service arbitrary: s rule: start_inbounds.induct)
  case (2 Listen i rest closers service)
  show ?case
  proof (cases "Listen closers (i_Listen i)")
    case (Inl e)
    with "2.prems" listen_fails [of s i rest Listen e] show ?thesis by (auto intro!: exI r_into_rtranclp)
  next
    case (Inr addr)
    define t where "t = s\<lparr>lf_phase := Opening rest, lf_closers := closers @ [addr], lf_opened := lf_opened s @ [i],
      lf_service := setInboundAddress (i_Name i) addr service\<rparr>"
    have "main_step Listen s t"
      using listens [of s i rest Listen addr] "2.prems" Inr by (simp add: t_def)
    moreover obtain u where "(main_step Listen)\<^sup>*\<^sup>* t u" and u: "lf_phase u = Cancelling (Some err)"
        "lf_closers u = closers'" "lf_service u = service'"
      using "2.IH" [OF Inr, of t] "2.prems" Inr by (auto simp: t_def)
    ultimately have "(main_step Listen)\<^sup>*\<^sup>* s u" by (simp add: converse_rtranclp_into_rtranclp)
    with u show ?thesis by blast
  qed
qed simp

text \<open>The state in which \<open>Run\<close> enters its \<open>select\<close>.\<close>

definition started_state :: "Service \<Rightarrow> string list \<Rightarrow> Service \<Rightarrow> string option \<Rightarrow> life" where
  "started_state s0 closers service listener =
     (life_start s0)\<lparr>lf_phase := Selecting,
        lf_closers := closers @ (case listener of None \<Rightarrow> [] | Some addr \<Rightarrow> [addr]),
        lf_opened := life_inbounds s0, lf_service := service,
        lf_admin := (if listener = None then NoAdmin else Serving),
        lf_reporter := (if c_Kboard (sv_cfg s0) = None then NoReporter else Reporting)\<rparr>"

lemma started_run:
  assumes "start_inbounds Listen (life_inbounds s0) [] s0 = (None, closers, s1)"
    and "startAdmin (Listen closers) s1 = Inr (listener, service)"
  shows "(main_step Listen)\<^sup>*\<^sup>* (life_start s0) (started_state s0 closers service listener)"
proof -
  define a where "a = (life_start s0)\<lparr>lf_phase := Opening [], lf_closers := closers,
    lf_opened := life_inbounds s0, lf_service := s1\<rparr>"
  define b where "b = a\<lparr>lf_phase := StartReporter, lf_service := service,
    lf_closers := closers @ (case listener of None \<Rightarrow> [] | Some addr \<Rightarrow> [addr]),
    lf_admin := (if listener = None then NoAdmin else Serving)\<rparr>"
  have "(main_step Listen)\<^sup>*\<^sup>* (life_start s0) a"
    using startup_run [OF assms(1), of "life_start s0"] by (simp add: a_def life_start_def)
  moreover have "main_step Listen a b"
    using admin_starts [of a Listen listener service] assms(2) by (simp add: a_def b_def)
  moreover have "main_step Listen b (started_state s0 closers service listener)"
  proof -
    have "sv_cfg service = sv_cfg s0"
      using startAdmin_cfg [OF assms(2)] start_inbounds_facts [OF assms(1)] by simp
    then have "started_state s0 closers service listener = b\<lparr>lf_phase := Selecting, lf_reporter :=
        (if c_Kboard (sv_cfg (lf_service b)) = None then NoReporter else Reporting)\<rparr>"
      by (simp add: a_def b_def started_state_def)
    moreover have "lf_phase b = StartReporter" by (simp add: b_def)
    ultimately show ?thesis using reporter_starts [of b Listen] by metis
  qed
  ultimately show ?thesis by (meson rtranclp.rtrancl_into_rtrancl)
qed

text \<open>The select can end with the context and with the error of any worker.\<close>

lemma three_steps: "P a b \<Longrightarrow> P b c \<Longrightarrow> P c d \<Longrightarrow> P\<^sup>*\<^sup>* a d"
  by (meson converse_rtranclp_into_rtranclp rtranclp.rtrancl_refl)

lemma loop_error_reached:
  assumes "lf_phase s = Selecting" and "i \<in> set (lf_opened s)" and "lf_ctx s = None" and "lf_errCh s = []"
    and "returned (loops (lf_node s) (i_Name i)) = None" "lf_accepted s = {}" "lf_loops_done s = {}"
    and e: "e = accept_error E (i_Name i) False err" "\<not> errors_is e CtxCanceled"
  shows "\<exists>t. (life_step E Listen)\<^sup>*\<^sup>* s t \<and> lf_phase t = Cancelling (run_result e) \<and>
    lf_closers t = lf_closers s \<and> lf_service t = lf_service s"
proof -
  define a where "a = s\<lparr>lf_node := loop_failed E i False err (lf_node s)\<rparr>"
  define b where "b = a\<lparr>lf_loops_done := {i_Name i}, lf_errCh := [e]\<rparr>"
  define c where "c = b\<lparr>lf_phase := Cancelling (run_result e), lf_errCh := []\<rparr>"
  have "worker_step E s a" using loop_fails [of i s E err] assms by (simp add: a_def)
  moreover have "worker_step E a b"
    using loop_sends [of i a e E] assms by (simp add: a_def b_def err_capacity_def)
  moreover have "main_step Listen b c"
    using worker_failed [of b e "[]" Listen] assms(1) by (simp add: a_def b_def c_def)
  ultimately have "(life_step E Listen)\<^sup>*\<^sup>* s c" by (intro three_steps) (auto intro: main worker)
  then show ?thesis by (intro exI [of _ c]) (simp add: a_def b_def c_def)
qed

lemma admin_error_reached:
  assumes "lf_phase s = Selecting" and "lf_admin s = Serving" and "\<not> lf_shutdown s" and "lf_errCh s = []"
    and "\<not> errors_is err http_ErrServerClosed"
  shows "\<exists>t. (life_step E Listen)\<^sup>*\<^sup>* s t \<and> lf_phase t = Cancelling (run_result (Wrap ''admin'' err)) \<and>
    lf_closers t = lf_closers s \<and> lf_service t = lf_service s"
proof -
  define a where "a = s\<lparr>lf_admin := ServeReturned err\<rparr>"
  define b where "b = a\<lparr>lf_admin := AdminDone, lf_errCh := [Wrap ''admin'' err]\<rparr>"
  define c where "c = b\<lparr>lf_phase := Cancelling (run_result (Wrap ''admin'' err)), lf_errCh := []\<rparr>"
  have "worker_step E s a" using serve_returns [of s err E] assms by (simp add: a_def)
  moreover have "worker_step E a b"
    using admin_sends [of a err E] assms by (simp add: a_def b_def err_capacity_def)
  moreover have "main_step Listen b c"
    using worker_failed [of b "Wrap ''admin'' err" "[]" Listen] assms(1) by (simp add: a_def b_def c_def)
  ultimately have "(life_step E Listen)\<^sup>*\<^sup>* s c" by (intro three_steps) (auto intro: main worker)
  then show ?thesis by (intro exI [of _ c]) (simp add: a_def b_def c_def)
qed

lemma context_end_reached:
  assumes "lf_phase s = Selecting" and "lf_ctx s = None" and "err \<in> {CtxCanceled, CtxDeadline}"
  shows "\<exists>t. (life_step E Listen)\<^sup>*\<^sup>* s t \<and> lf_phase t = Cancelling (run_result err) \<and>
    lf_closers t = lf_closers s \<and> lf_service t = lf_service s"
proof -
  define a where "a = s\<lparr>lf_ctx := Some err\<rparr>"
  define b where "b = a\<lparr>lf_phase := Cancelling (run_result err)\<rparr>"
  have "life_step E Listen s a" using context_ends [OF assms(2,3)] by (simp add: a_def)
  moreover have "life_step E Listen a b"
    using context_ended [of a err Listen] assms(1) by (simp add: a_def b_def life_step.main)
  ultimately have "(life_step E Listen)\<^sup>*\<^sup>* s b" by (meson converse_rtranclp_into_rtranclp rtranclp.rtrancl_refl)
  then show ?thesis by (intro exI [of _ b]) (simp add: a_def b_def)
qed

lemma event_reached:
  fixes closers service
  assumes "event_ok E (life_inbounds s0) ev" and "listener \<noteq> None"
  defines "s \<equiv> started_state s0 closers service listener"
  shows "\<exists>t. (life_step E Listen)\<^sup>*\<^sup>* s t \<and> lf_phase t = Cancelling (run_result (run_error ev)) \<and>
    lf_closers t = lf_closers s \<and> lf_service t = lf_service s"
proof -
  have state: "lf_phase s = Selecting" "lf_opened s = life_inbounds s0" "lf_ctx s = None" "lf_errCh s = []"
    "lf_accepted s = {}" "lf_loops_done s = {}" "lf_admin s = Serving" "\<not> lf_shutdown s"
    "\<And>name. returned (loops (lf_node s) name) = None"
    using assms(2) by (simp_all add: s_def started_state_def life_start_def node_start_def loop_start_def)
  show ?thesis
  proof (cases ev)
    case (ContextDone e)
    with assms(1) have "e \<in> {CtxCanceled, CtxDeadline}" by (simp add: event_ok_def)
    from context_end_reached [OF state(1,3) this] ContextDone show ?thesis by (simp add: run_error_def)
  next
    case (WorkerFailed e)
    with assms(1) have "worker_error E (life_inbounds s0) e" by (simp add: event_ok_def)
    then consider i err where "i \<in> set (lf_opened s)" "e = accept_error E (i_Name i) False err" "\<not> errors_is e CtxCanceled"
      | err where "e = Wrap ''admin'' err" "\<not> errors_is err http_ErrServerClosed"
      unfolding worker_error_def state(2) by blast
    then show ?thesis
    proof cases
      case 1
      from loop_error_reached [OF state(1) 1(1) state(3,4,9,5,6) 1(2,3)] WorkerFailed show ?thesis
        by (simp add: run_error_def)
    next
      case 2
      from admin_error_reached [OF state(1,7,8,4) 2(2)] 2(1) WorkerFailed show ?thesis
        by (simp add: run_error_def)
    qed
  qed
qed

text \<open>Every result of the function \<open>Run\<close> is that of a run of the node.\<close>

lemma Run_reached:
  assumes admin: "ad_Address (c_Admin (sv_cfg s0)) \<noteq> []" and dist: "distinct (map i_Name (life_inbounds s0))"
    and ev: "event_ok E (life_inbounds s0) ev"
  shows "\<exists>s. (life_step E Listen)\<^sup>*\<^sup>* (life_start s0) s \<and> lf_phase s = Finished (ru_error (Run Listen ev finish s0)) \<and>
    lf_closers s = ru_closed (Run Listen ev finish s0) \<and> lf_service s = ru_service (Run Listen ev finish s0)"
proof -
  let ?out = "Run Listen ev finish s0"
  obtain res closers s1 where started: "start_inbounds Listen (life_inbounds s0) [] s0 = (res, closers, s1)"
    by (metis prod.collapse)
  have start: "lf_phase (life_start s0) = Opening (life_inbounds s0)" "lf_closers (life_start s0) = []"
    "lf_service (life_start s0) = s0" by (simp_all add: life_start_def)
  have "\<exists>s. (life_step E Listen)\<^sup>*\<^sup>* (life_start s0) s \<and> lf_phase s = Cancelling (ru_error ?out) \<and>
      lf_closers s = ru_closed ?out \<and> lf_service s = ru_service ?out"
  proof (cases res)
    case (Some err)
    with failing_startup_run [OF _ start, of Listen err closers s1] started main_steps show ?thesis
      by (fastforce simp: Run_def)
  next
    case None
    then have ok: "start_inbounds Listen (life_inbounds s0) [] s0 = (None, closers, s1)" using started by simp
    show ?thesis
    proof (cases "startAdmin (Listen closers) s1")
      case (Inl err)
      define a where "a = (life_start s0)\<lparr>lf_phase := Opening [], lf_closers := closers,
        lf_opened := life_inbounds s0, lf_service := s1\<rparr>"
      have "(main_step Listen)\<^sup>*\<^sup>* (life_start s0) a"
        using startup_run [OF ok start] by (simp add: a_def life_start_def)
      moreover have "main_step Listen a (a\<lparr>lf_phase := Cancelling (Some err)\<rparr>)"
        using admin_fails [of a Listen err] Inl by (simp add: a_def)
      ultimately have "(life_step E Listen)\<^sup>*\<^sup>* (life_start s0) (a\<lparr>lf_phase := Cancelling (Some err)\<rparr>)"
        by (intro main_steps) (rule rtranclp.rtrancl_into_rtrancl)
      then show ?thesis
        by (intro exI [of _ "a\<lparr>lf_phase := Cancelling (Some err)\<rparr>"]) (simp add: Run_def ok Inl a_def)
    next
      case (Inr r)
      obtain listener service where r: "r = (listener, service)" by (cases r)
      have "sv_cfg s1 = sv_cfg s0" using start_inbounds_facts [OF ok] by simp
      then have "listener \<noteq> None" using Inr admin by (auto simp: startAdmin_def r split: if_splits sum.splits)
      from event_reached [OF ev this, where closers = closers and service = service and Listen = Listen]
      obtain t where t: "(life_step E Listen)\<^sup>*\<^sup>* (started_state s0 closers service listener) t"
        "lf_phase t = Cancelling (run_result (run_error ev))"
        "lf_closers t = closers @ (case listener of None \<Rightarrow> [] | Some addr \<Rightarrow> [addr])" "lf_service t = service"
        by (auto simp: started_state_def)
      have "(life_step E Listen)\<^sup>*\<^sup>* (life_start s0) t"
        using main_steps [OF started_run [OF ok Inr [unfolded r]]] t(1) by (rule rtranclp_trans)
      with t show ?thesis by (intro exI [of _ t]) (simp add: Run_def ok Inr r Let_def)
    qed
  qed
  then obtain s where s: "(life_step E Listen)\<^sup>*\<^sup>* (life_start s0) s" "lf_phase s = Cancelling (ru_error ?out)"
      "lf_closers s = ru_closed ?out" "lf_service s = ru_service ?out" by blast
  have "phase_result (lf_phase s) = Some (ru_error ?out)" using s(2) by simp
  from settled_finishes [OF life.reachable [OF s(1)] dist this] s show ?thesis
    by (metis rtranclp_trans)
qed

end
