(* ===== verification/Service_Properties.thy ===== *)
theory Service_Properties
  imports Relay_Properties Node_Lifecycle
begin

text \<open>
  The properties of the service: construction, one connection, the accept loops, \<open>Run\<close> with its
  error channel, dialling, and the counters.
\<close>

section \<open>Construction\<close>

text \<open>C2: \<open>New\<close> succeeds exactly when the configuration validates: after that neither a dialer nor a
  relay can fail to be built, and the service has a relay with a 64-byte key for every relay
  inbound, the right dialer for every TCP inbound, a well-formed store with the configured
  credentials, and zero counters.\<close>

theorem New_exact:
  "is_ok (New E start c0) = is_ok (Config_Validate E c0) \<and>
   (\<forall>cfg. Config_Validate E c0 = Inr cfg \<longrightarrow>
      (\<exists>s. New E start c0 = Inr s \<and> sv_cfg s = cfg \<and> service_ok E s \<and>
         sv_store s = all_static (c_Inbounds cfg) newDynamicClientStore \<and> sv_metrics s = NewMetrics start))"
  using New_iff New_valid by blast

lemma New_sample: "\<exists>s. New sample_env 0 sample_config = Inr s \<and> sv_cfg s = sample_config \<and> service_ok sample_env s"
  using New_valid [OF sample_validates] by blast

theorem New_exact_witness: "is_ok (New sample_env 0 sample_config)"
  using New_exact [of sample_env 0 sample_config] sample_validates by (simp add: is_ok_iff)

lemma New_facts:
  assumes "New E start c0 = Inr s"
  shows "Config_Validate E c0 = Inr (sv_cfg s) \<and> service_ok E s \<and> sv_startedListeners s = 0"
proof -
  have "is_ok (New E start c0)" using assms unfolding is_ok_iff by blast
  then have "is_ok (Config_Validate E c0)" by (rule New_iff [THEN iffD1])
  then obtain cfg where cfg: "Config_Validate E c0 = Inr cfg" unfolding is_ok_iff by blast
  obtain s' where "New E start c0 = Inr s'" "sv_cfg s' = cfg" "service_ok E s'" "sv_startedListeners s' = 0"
    using New_valid [OF cfg] by blast
  with assms cfg show ?thesis by simp
qed

lemmas New_service_ok = New_facts [THEN conjunct2, THEN conjunct1]

text \<open>C23: The handshake configuration a relay of a constructed service offers is sound: a 64-byte key,
  at least one capability, positive timeouts, a padding range within the protocol's limit, and
  the shared credential store.\<close>

theorem handshake_config_sound:
  assumes "New E start c0 = Inr s" and "i \<in> set (c_Inbounds (sv_cfg s))"
    and "i_Mode i = InboundModeKLESSServer" and "CapabilityAll (kless E) \<noteq> 0"
  shows "\<exists>r. sv_relays s (i_Name i) = Some r \<and>
    (let cfg = serverConfig E r (sv_store s)
     in length (ks_SigningKey cfg) = 64 \<and> ks_Capabilities cfg \<noteq> 0 \<and>
        0 \<le> ks_PaddingMin cfg \<and> ks_PaddingMin cfg \<le> ks_PaddingMax cfg \<and>
        ks_PaddingMax cfg \<le> MaxHandshakePadding (kless E) \<and>
        0 < ks_HandshakeTimeout cfg \<and> ks_ClientStore cfg = LookupClientSecret (sv_store s))"
proof -
  have ok: "service_ok E s" using assms(1) by (rule New_service_ok)
  then obtain r where r: "sv_relays s (i_Name i) = Some r" "sr_cfg r = i_KLESS i" "length (sr_signing r) = 64"
    using assms(2,3) unfolding service_ok_def relay_inbound_def by metis
  have "\<exists>allow ups. valid_InboundConfig E ups allow i"
    using ok assms(2) unfolding service_ok_def valid_Config_def by blast
  then obtain allow where valid: "valid_ServerKLESSConfig E allow (i_KLESS i)"
    using assms(3) by (auto simp: valid_InboundConfig_def inbound_mode_defs)
  then obtain caps where "CapabilityMask E (i_KLESS i) = Inr caps"
    by (auto simp: valid_ServerKLESSConfig_def is_ok_iff)
  moreover from this have "caps \<noteq> 0"
    using assms(4) by (auto simp: CapabilityMask_def capabilityMaskForNames_def split: if_splits sum.splits)
  moreover have "0 < HandshakeTimeoutDuration (i_KLESS i)"
    using valid by (auto simp: valid_ServerKLESSConfig_def HandshakeTimeoutDuration_def duration_const_defs
        intro!: good_duration_positive)
  ultimately show ?thesis
    using r valid by (simp add: serverConfig_def Let_def valid_ServerKLESSConfig_def good_padding_def)
qed

theorem handshake_config_sound_witness:
  "\<exists>s r. New sample_env 0 sample_config = Inr s \<and> sv_relays s ''public'' = Some r \<and>
     length (ks_SigningKey (serverConfig sample_env r (sv_store s))) = 64"
proof -
  obtain s where s: "New sample_env 0 sample_config = Inr s" "sv_cfg s = sample_config"
    using New_sample by blast
  then have "sample_relay_inbound \<in> set (c_Inbounds (sv_cfg s))" by simp
  then show ?thesis
    using handshake_config_sound [OF s(1), of sample_relay_inbound] s
    by (auto simp: inbound_mode_defs sample_env_def sample_kless_def Let_def)
qed

section \<open>One connection\<close>

text \<open>C3: Whatever the client, the upstream, the network and the handshake do, a connection on an inbound
  of a constructed service is served to the end: the handler does not panic, everything it opened
  is closed, the gauge of active connections is back where it was, the total is one higher, and
  at most one error is counted.\<close>

theorem connection_accounted:
  assumes "New E start c0 = Inr s" and "i \<in> set (c_Inbounds (sv_cfg s))" and "still_open w = {}"
  shows "\<exists>w'. handleConnection E L N c s i w = Some w' \<and> still_open w' = {} \<and>
    m_active (w_metrics w') = m_active (w_metrics w) \<and>
    m_total (w_metrics w') = m_total (w_metrics w) + 1 \<and>
    m_rejected (w_metrics w') = m_rejected (w_metrics w) \<and>
    (error_count (w_metrics w') = error_count (w_metrics w) \<or>
     error_count (w_metrics w') = error_count (w_metrics w) + 1)"
proof -
  obtain w1 where w1: "handleConnection E L N c s i w = Some (tally endConnection (emit [Closed LocalConn] w1))"
    and moved: "moves (Suc 0) (beginConnection (w_metrics w)) (w_metrics w1)"
    and closed: "still_open w = {} \<Longrightarrow> still_open w1 - {LocalConn} = {}"
    using handleConnection_some [OF New_service_ok [OF assms(1)] assms(2)] by metis
  have counters: "error_count (endConnection m) = error_count m" "error_count (beginConnection m) = error_count m"
      "m_active (endConnection m) = m_active m - 1" "m_active (beginConnection m) = m_active m + 1"
      "m_total (endConnection m) = m_total m" "m_total (beginConnection m) = m_total m + 1"
      "m_rejected (endConnection m) = m_rejected m" "m_rejected (beginConnection m) = m_rejected m" for m
    by (simp_all add: error_count_def endConnection_def beginConnection_def)
  then show ?thesis
    using w1 closed [OF assms(3)] moves_connection_counters [OF moved] moves_error_count [OF moved]
    by (auto simp: counters)
qed

definition sample_net :: net_lib where
  "sample_net =
     \<lparr>tcp_Dial = (\<lambda>_ _. Inl NetClosed), tls_Dial = (\<lambda>_ _ _. Inl NetClosed),
      httpupgrade_Dial = (\<lambda>_ _ _ _. Inl NetClosed), websocket_Dial = (\<lambda>_ _ _ _. Inl NetClosed),
      httpstream_Dial = (\<lambda>_ _ _. Inl NetClosed), grpc_Dial = (\<lambda>_ _ _. Inl NetClosed),
      xhttp_Dial = (\<lambda>_ _ _. Inl NetClosed), kless_ErrUnsupported = Ext ''unsupported'',
      ClientHandshake = (\<lambda>_ _. None), ReadFile = (\<lambda>_. Inl NetClosed), AppendCertsFromPEM = (\<lambda>_. False)\<rparr>"

theorem connection_accounted_witness:
  "\<exists>s w. New sample_env 0 sample_config = Inr s \<and>
     handleConnection sample_env sample_relay sample_net sample_conn s sample_relay_inbound sample_world = Some w \<and>
     m_total (w_metrics w) = 1 \<and> m_active (w_metrics w) = 0"
proof -
  obtain s where s: "New sample_env 0 sample_config = Inr s" "sv_cfg s = sample_config"
    using New_sample by blast
  then have "sample_relay_inbound \<in> set (c_Inbounds (sv_cfg s))" by simp
  moreover have "still_open sample_world = {}" by (simp add: still_open_def sample_world_def)
  moreover have "m_total (w_metrics sample_world) = 0" "m_active (w_metrics sample_world) = 0"
    by (simp_all add: sample_world_def NewMetrics_def)
  ultimately show ?thesis
    using connection_accounted [OF s(1), of sample_relay_inbound sample_world sample_relay sample_net sample_conn] s(1)
    by auto
qed

section \<open>The accept loops\<close>

lemma validated_valid: "Config_Validate E c0 = Inr cfg \<Longrightarrow> valid_Config E cfg"
  unfolding Config_Validate_iff by blast

lemma distinct_inbounds: "Config_Validate E c0 = Inr cfg \<Longrightarrow> distinct (map i_Name (c_Inbounds cfg))"
  unfolding Config_Validate_iff valid_Config_def by blast

text \<open>C4: In every reachable state of the accept loops of a validated configuration, an inbound with a
  limit serves at most that many connections at a time, and the gauge of active connections that
  the node reports is the number of connections being served over all inbounds.\<close>

theorem connection_limit:
  assumes "Config_Validate E c0 = Inr cfg"
    and "(accept_step E (c_Inbounds cfg))\<^sup>*\<^sup>* (node_start (NewMetrics start)) s"
  shows "(\<forall>i \<in> set (c_Inbounds cfg). i_MaxConnections i > 0 \<longrightarrow>
       int (handling (loops s (i_Name i))) \<le> i_MaxConnections i) \<and>
    (total_over (c_Inbounds cfg) handling s < 2 ^ 63 \<longrightarrow>
       sn_Active (Snapshot moment (node_metrics s)) = int (total_over (c_Inbounds cfg) handling s))"
proof -
  have "distinct (map i_Name (c_Inbounds cfg))" using assms(1) by (rule distinct_inbounds)
  then have inv: "accept_inv (c_Inbounds cfg) (NewMetrics start) s"
    using assms(2) by (intro accept_inv_reachable)
  then have "m_active (node_metrics s) = of_nat (total_over (c_Inbounds cfg) handling s)"
    by (simp add: accept_inv_def NewMetrics_def)
  then have "sn_Active (Snapshot moment (node_metrics s)) = int (total_over (c_Inbounds cfg) handling s)"
    if "total_over (c_Inbounds cfg) handling s < 2 ^ 63"
    using sint_of_int_small [of "int (total_over (c_Inbounds cfg) handling s)"] that by (simp add: Snapshot_def)
  with accept_inv_limit [OF inv] show ?thesis by blast
qed

theorem connection_limit_witness:
  "sn_Active (Snapshot 0 (node_metrics (node_start (NewMetrics 0)))) = 0 \<and>
   int (handling (loops (node_start (NewMetrics 0)) ''public'')) \<le> 2"
  using connection_limit [OF sample_validates, of 0 "node_start (NewMetrics 0)"]
  by (simp add: total_over_def node_start_def loop_start_def)

text \<open>C21: A connection of an inbound is refused only when the limit of this inbound is exhausted: a step
  that refuses one is taken in a state where as many of its own connections as its limit allows
  hold a slot, whatever the other inbounds do; it counts the refusal and changes nothing else.\<close>

theorem refused_only_at_limit:
  assumes "Config_Validate E c0 = Inr cfg"
    and "(accept_step E (c_Inbounds cfg))\<^sup>*\<^sup>* (node_start m) s"
    and "accept_step E (c_Inbounds cfg) s t" and "i \<in> set (c_Inbounds cfg)"
    and "loop_refused (loops t (i_Name i)) \<noteq> loop_refused (loops s (i_Name i))"
  shows "i_MaxConnections i > 0 \<and>
    int (started (loops s (i_Name i)) + handling (loops s (i_Name i)) + handled (loops s (i_Name i)))
      = i_MaxConnections i \<and>
    loops t = (loops s)(i_Name i := (loops s (i_Name i))\<lparr>loop_refused := loop_refused (loops s (i_Name i)) + 1\<rparr>) \<and>
    node_metrics t = addRejected (node_metrics s) \<and> refused_conns t = refused_conns s + 1 \<and>
    wait_group t = wait_group s"
proof -
  have dist: "distinct (map i_Name (c_Inbounds cfg))" using assms(1) by (rule distinct_inbounds)
  then have inv: "accept_inv (c_Inbounds cfg) m s" using assms(2) by (intro accept_inv_reachable)
  from refusing_step [OF inv dist assms(3-5)] have
    full: "sem_full i (loops s (i_Name i))" and t: "t = accept_conn i s" by blast+
  from refuse_only_when_full [OF inv assms(4) full] full t show ?thesis
    by (simp add: sem_full_def accept_conn_def)
qed

text \<open>A state in which the relay inbound of the sample, whose limit is two, is full.\<close>

definition full_state :: node_state where
  "full_state =
     (node_start (NewMetrics 0))
       \<lparr>loops := (\<lambda>_. loop_start)(''public'' := loop_start\<lparr>slots := 2, started := 2\<rparr>), wait_group := 2\<rparr>"

lemma full_state_reachable:
  "(accept_step sample_env (c_Inbounds sample_config))\<^sup>*\<^sup>* (node_start (NewMetrics 0)) full_state"
proof -
  define one where "one = (node_start (NewMetrics 0))
    \<lparr>loops := (\<lambda>_. loop_start)(''public'' := loop_start\<lparr>slots := 1, started := 1\<rparr>), wait_group := 1\<rparr>"
  have "accept_step sample_env (c_Inbounds sample_config) (node_start (NewMetrics 0)) one"
    using accept_step.accepts [of sample_relay_inbound "c_Inbounds sample_config" "node_start (NewMetrics 0)"]
    by (simp add: accept_conn_def one_def update_loop_def node_start_def take_slot_def sem_full_def loop_start_def)
  moreover have "accept_step sample_env (c_Inbounds sample_config) one full_state"
    using accept_step.accepts [of sample_relay_inbound "c_Inbounds sample_config" one]
    by (simp add: accept_conn_def one_def full_state_def update_loop_def node_start_def take_slot_def sem_full_def loop_start_def
        numeral_2_eq_2)
  ultimately show ?thesis by (meson converse_rtranclp_into_rtranclp rtranclp.rtrancl_refl)
qed

theorem refused_only_at_limit_witness:
  "i_MaxConnections sample_relay_inbound = int (started (loops full_state ''public''))"
proof -
  have full: "sem_full sample_relay_inbound (loops full_state ''public'')"
    by (simp add: full_state_def sem_full_def)
  have "accept_step sample_env (c_Inbounds sample_config) full_state (accept_conn sample_relay_inbound full_state)"
    by (rule accept_step.accepts) (simp_all add: full_state_def loop_start_def)
  from refused_only_at_limit [OF sample_validates full_state_reachable this, of sample_relay_inbound] full
  show ?thesis by (simp add: accept_conn_def) (simp add: full_state_def loop_start_def)
qed

text \<open>C20: The node always drains: from every reachable state the connections that are left can be brought
  to an end, they cannot be brought forward for ever, and wherever no step brings one forward the
  wait group is zero, the gauge is back at its start and every slot is free.\<close>

theorem node_drains:
  assumes "Config_Validate E c0 = Inr cfg"
    and "(accept_step E (c_Inbounds cfg))\<^sup>*\<^sup>* (node_start m) s"
  shows "(\<exists>t. (finishing E (c_Inbounds cfg))\<^sup>*\<^sup>* s t \<and> (\<forall>u. \<not> finishing E (c_Inbounds cfg) t u)) \<and>
    (\<forall>n t. (finishing E (c_Inbounds cfg) ^^ n) s t \<longrightarrow>
       n \<le> total_over (c_Inbounds cfg) loop_work s \<and>
       ((\<forall>u. \<not> finishing E (c_Inbounds cfg) t u) \<longrightarrow>
          wait_group t = 0 \<and> m_active (node_metrics t) = m_active m \<and>
          (\<forall>i \<in> set (c_Inbounds cfg). goroutines (loops t (i_Name i)) = 0 \<and> slots (loops t (i_Name i)) = 0)))"
proof -
  note dist = distinct_inbounds [OF assms(1)]
  have bound: "n \<le> total_over (c_Inbounds cfg) loop_work s"
    and inv: "accept_inv (c_Inbounds cfg) m t" if "(finishing E (c_Inbounds cfg) ^^ n) s t" for n t
  proof -
    show "n \<le> total_over (c_Inbounds cfg) loop_work s" using finish.steps_bounded [OF that] by simp
    show "accept_inv (c_Inbounds cfg) m t"
      by (rule accept_inv_reachable [OF rtranclp_trans [OF assms(2) finish.after_steps [OF that]] dist])
  qed
  have "wait_group t = 0 \<and> m_active (node_metrics t) = m_active m \<and>
      (\<forall>i \<in> set (c_Inbounds cfg). goroutines (loops t (i_Name i)) = 0 \<and> slots (loops t (i_Name i)) = 0)"
    if "(finishing E (c_Inbounds cfg) ^^ n) s t" "\<forall>u. \<not> finishing E (c_Inbounds cfg) t u" for n t
    using wait_group_zero [OF inv [OF that(1)] finished_wait_group [OF inv [OF that(1)] dist that(2)]]
      finished_wait_group [OF inv [OF that(1)] dist that(2)] by blast
  then show ?thesis using bound finish.runs_out by blast
qed

theorem node_drains_witness:
  "\<exists>t. (finishing sample_env (c_Inbounds sample_config))\<^sup>*\<^sup>* full_state t \<and> wait_group t = 0"
proof -
  obtain t where t: "(finishing sample_env (c_Inbounds sample_config))\<^sup>*\<^sup>* full_state t"
    "\<forall>u. \<not> finishing sample_env (c_Inbounds sample_config) t u"
    using node_drains [OF sample_validates full_state_reachable] by blast
  then obtain n where "(finishing sample_env (c_Inbounds sample_config) ^^ n) full_state t"
    by (blast dest: rtranclp_imp_relpowp)
  with t show ?thesis using node_drains [OF sample_validates full_state_reachable] by blast
qed

section \<open>Run\<close>

text \<open>C19: \<open>Run\<close> either fails to start, with the error of the first listener that cannot be opened, and
  closes exactly the listeners it had opened (the node reports ready only if all of its inbounds
  were open), or it opens one listener per inbound and the admin listener, reports ready, closes
  exactly these at the end, gives the admin server a positive grace time and returns nil exactly
  when the context ended.  It waits for the connections at most the grace time, and gives up
  exactly on those that take longer.\<close>

theorem run_outcomes:
  assumes "New E start c0 = Inr s"
  shows "let out = Run Listen ev finish s; ins = c_Inbounds (sv_cfg s); n = length ins;
      admin = ad_Address (c_Admin (sv_cfg s)); closed = ru_closed out in
    fst (ru_wait out) \<le> ShutdownGraceDuration (sv_cfg s) \<and>
    (snd (ru_wait out) \<longleftrightarrow> (\<forall>d. finish = Some d \<longrightarrow> ShutdownGraceDuration (sv_cfg s) < d)) \<and>
    (\<forall>j < min n (length closed). Listen (take j closed) (i_Listen (ins ! j)) = Inr (closed ! j)) \<and>
    ((ru_shutdown_timeout out = None \<and> ru_error out \<noteq> None \<and> length closed \<le> n \<and>
       (fst (handleReady (ru_service out)) = 200 \<longleftrightarrow> length closed = n) \<and>
       (if length closed < n
        then \<exists>e. Listen closed (i_Listen (ins ! length closed)) = Inl e \<and>
               ru_error out = Some (WrapQ ''listen inbound'' (i_Name (ins ! length closed)) e)
        else \<exists>e. Listen closed admin = Inl e \<and> ru_error out = Some (Wrap ''listen admin'' e))) \<or>
    (ru_shutdown_timeout out = Some (ShutdownGraceDuration (sv_cfg s)) \<and> 0 < ShutdownGraceDuration (sv_cfg s) \<and>
       length closed = n + 1 \<and> Listen (take n closed) admin = Inr (closed ! n) \<and>
       fst (handleReady (ru_service out)) = 200 \<and>
       (ru_error out = None \<longleftrightarrow>
          errors_is (run_error ev) CtxCanceled \<or> errors_is (run_error ev) CtxDeadline)))"
proof -
  have cfg: "Config_Validate E c0 = Inr (sv_cfg s)" and zero: "sv_startedListeners s = 0"
    using New_facts [OF assms] by blast+
  have admin: "ad_Address (c_Admin (sv_cfg s)) \<noteq> []" using valid_admin_address [OF cfg] .
  have grace: "0 < ShutdownGraceDuration (sv_cfg s)"
    using validated_valid [OF cfg] unfolding valid_Config_def ShutdownGraceDuration_def
    by (intro good_duration_positive) (simp_all add: duration_const_defs)
  obtain res closers s1 where started: "start_inbounds Listen (c_Inbounds (sv_cfg s)) [] s = (res, closers, s1)"
    by (metis prod.collapse)
  note facts = start_inbounds_facts [OF started]
  note ready = ready_iff [OF started zero prefix_order.order_refl]
  have opened: "Listen (take j closers) (i_Listen (c_Inbounds (sv_cfg s) ! j)) = Inr (closers ! j)"
    if "j < length closers" for j
    using start_inbounds_opened [OF started] that by simp
  have same: "handleReady (setAdminAddress a s1) = handleReady s1" for a
    by (simp add: handleReady_def setAdminAddress_def)
  have wait: "fst (waitConnections cfg finish) \<le> ShutdownGraceDuration cfg"
    "snd (waitConnections cfg finish) \<longleftrightarrow> (\<forall>d. finish = Some d \<longrightarrow> ShutdownGraceDuration cfg < d)" for cfg
    by (auto simp: waitConnections_def split: option.splits)
  from admin started show ?thesis
  proof (cases rule: Run_cases [where ev = ev and finish = finish])
    case (inbound err)
    then have "length closers < length (c_Inbounds (sv_cfg s))" using facts by auto
    with inbound ready start_inbounds_opened [OF started] opened show ?thesis by (simp add: Let_def wait)
  next
    case (admin err)
    with facts ready opened show ?thesis by (simp add: Let_def wait)
  next
    case (serving addr)
    with facts ready grace opened show ?thesis by (simp add: Let_def wait same run_result_def nth_append)
  qed
qed

theorem run_outcomes_witness:
  "\<exists>s. New sample_env 0 sample_config = Inr s \<and>
     ru_shutdown_timeout (Run (\<lambda>_ a. Inr a) (ContextDone CtxCanceled) None s) \<noteq> None \<and>
     ru_error (Run (\<lambda>_ a. Inr a) (ContextDone CtxCanceled) None s) = None"
proof -
  obtain s where s: "New sample_env 0 sample_config = Inr s" "sv_cfg s = sample_config"
    using New_sample by blast
  have "ad_Address (c_Admin sample_config) = ''127.0.0.1:8080''" by (simp add: sample_config_def)
  then have "ru_error (Run (\<lambda>_ a. Inr a) (ContextDone CtxCanceled) None s) = None"
    using s(2) by (simp add: Run_def startAdmin_def run_result_def run_error_def setAdminAddress_def setInboundAddress_def)
  then show ?thesis using run_outcomes [OF s(1), of "\<lambda>_ a. Inr a" "ContextDone CtxCanceled" None] s(1)
    by (auto simp: Let_def)
qed

section \<open>The life of a node\<close>

text \<open>C5: The node as a system of goroutines and the function \<open>Run\<close> agree: what \<open>Run\<close> can return, the
  listeners it has closed and the addresses it has published, over all schedules of the accept
  loops, the connections, the admin server, the reporter and the context, are exactly the results
  of the function for an end of the context or an error of an accept loop or the admin server.\<close>

theorem run_exact:
  assumes "New E start c0 = Inr s0"
  shows "(\<exists>s. (life_step E Listen)\<^sup>*\<^sup>* (life_start s0) s \<and> lf_phase s = Finished res \<and>
        lf_closers s = closers \<and> lf_service s = service) \<longleftrightarrow>
     (\<exists>ev. event_ok E (c_Inbounds (sv_cfg s0)) ev \<and>
        (\<forall>finish. ru_error (Run Listen ev finish s0) = res \<and> ru_closed (Run Listen ev finish s0) = closers \<and>
           ru_service (Run Listen ev finish s0) = service))"
    (is "?reached \<longleftrightarrow> ?computed")
proof
  assume ?reached
  then show ?computed using finished_facts [OF life.reachable] unfolding run_matches_def by blast
next
  assume ?computed
  then obtain ev where ev: "event_ok E (c_Inbounds (sv_cfg s0)) ev"
    "ru_error (Run Listen ev None s0) = res" "ru_closed (Run Listen ev None s0) = closers"
    "ru_service (Run Listen ev None s0) = service" by blast
  have cfg: "Config_Validate E c0 = Inr (sv_cfg s0)" using New_facts [OF assms] by blast
  from Run_reached [OF valid_admin_address [OF cfg] distinct_inbounds [OF cfg] ev(1), of Listen None] ev(2-4)
  show ?reached by auto
qed

text \<open>A listener for every address.\<close>

definition sample_listen :: listen_fun where
  "sample_listen opened address = Inr address"

lemma sample_run_finishes:
  "\<exists>s0 s. New sample_env 0 sample_config = Inr s0 \<and> sv_cfg s0 = sample_config \<and>
     (life_step sample_env sample_listen)\<^sup>*\<^sup>* (life_start s0) s \<and> lf_phase s = Finished None"
proof -
  obtain s0 where s0: "New sample_env 0 sample_config = Inr s0" "sv_cfg s0 = sample_config"
    using New_sample by blast
  have cfg: "Config_Validate sample_env sample_config = Inr (sv_cfg s0)" using New_facts [OF s0(1)] by blast
  have "ru_error (Run sample_listen (ContextDone CtxCanceled) None s0) = None"
  proof -
    have listens: "fst (start_inbounds sample_listen ins cl s) = None" for ins cl s
      by (induction sample_listen ins cl s rule: start_inbounds.induct) (simp_all add: sample_listen_def)
    then have "\<exists>cl s1. start_inbounds sample_listen (c_Inbounds (sv_cfg s0)) [] s0 = (None, cl, s1)"
      by (metis prod.collapse)
    then show ?thesis
      by (auto simp: Run_def Let_def startAdmin_def sample_listen_def run_error_def run_result_def)
  qed
  moreover have "event_ok sample_env (c_Inbounds (sv_cfg s0)) (ContextDone CtxCanceled)" by (simp add: event_ok_def)
  ultimately show ?thesis
    using Run_reached [OF valid_admin_address [OF cfg] distinct_inbounds [OF cfg], of sample_env
        "ContextDone CtxCanceled" sample_listen None] s0 by metis
qed

theorem run_exact_witness:
  "\<exists>s0 ev. New sample_env 0 sample_config = Inr s0 \<and> event_ok sample_env (c_Inbounds sample_config) ev \<and>
     ru_error (Run sample_listen ev None s0) = None"
proof -
  obtain s0 s where s: "New sample_env 0 sample_config = Inr s0" "sv_cfg s0 = sample_config"
    "(life_step sample_env sample_listen)\<^sup>*\<^sup>* (life_start s0) s" "lf_phase s = Finished None"
    using sample_run_finishes by blast
  then show ?thesis
    using run_exact [OF s(1), of sample_listen None "lf_closers s" "lf_service s"] by auto
qed



text \<open>C7: When \<open>Run\<close> has returned, it has closed every listener, all of its workers are done, and unless
  the grace time elapsed no connection is being served.  From then on nothing is accepted or
  refused, no error is sent, and the connections left over only become fewer.\<close>

theorem run_leaves_nothing:
  assumes "(life_step E Listen)\<^sup>*\<^sup>* (life_start s0) s" and "lf_phase s = Finished res"
    and "(life_step E Listen)\<^sup>*\<^sup>* s t"
  shows "lf_closed s \<and> workers_done s \<and> (\<not> lf_grace s \<longrightarrow> wait_group (lf_node s) = 0) \<and>
    lf_phase t = Finished res \<and> lf_errCh t = lf_errCh s \<and> lf_accepted t = lf_accepted s \<and>
    wait_group (lf_node t) \<le> wait_group (lf_node s) \<and> refused_conns (lf_node t) = refused_conns (lf_node s)"
proof -
  note inv = life.reachable [OF assms(1)]
  from finished_steps [OF assms(3) inv assms(2)] obtain n where "t = s\<lparr>lf_node := n\<rparr>"
    "wait_group n \<le> wait_group (lf_node s)" "refused_conns n = refused_conns (lf_node s)" by blast
  with finished_facts [OF inv assms(2)] assms(2) show ?thesis by simp
qed

theorem run_leaves_nothing_witness:
  "\<exists>s0 s. (life_step sample_env sample_listen)\<^sup>*\<^sup>* (life_start s0) s \<and> lf_phase s = Finished None \<and> workers_done s"
proof -
  obtain s0 s where s: "(life_step sample_env sample_listen)\<^sup>*\<^sup>* (life_start s0) s" "lf_phase s = Finished None"
    using sample_run_finishes by blast
  from run_leaves_nothing [OF s rtranclp.rtrancl_refl] s show ?thesis by blast
qed

section \<open>Dialling\<close>

text \<open>C24: Dialling an upstream of a validated configuration fails only where the outside does: the
  transport could not connect, or the peer refused the handshake.  A connection is handed to the
  caller or closed, never leaked.\<close>

theorem dial_failures:
  assumes "Config_Validate E c0 = Inr c" and "u \<in> set (c_Upstreams c)"
  shows "NewUpstreamDialer E u = Inr \<lparr>d_cfg = u\<rparr> \<and>
    (case Dial E N \<lparr>d_cfg = u\<rparr> of
       (Inr raw, conns) \<Rightarrow> dialRaw E N \<lparr>d_cfg = u\<rparr> = Inr raw \<and> conns = []
     | (Inl e, conns) \<Rightarrow>
         (Stage e = StageTransport \<and> dialRaw E N \<lparr>d_cfg = u\<rparr> = Inl (StageErr e) \<and> conns = []) \<or>
         (Stage e = StageHandshake \<and> (\<exists>raw cc. dialRaw E N \<lparr>d_cfg = u\<rparr> = Inr raw \<and>
            ClientHandshake N raw cc = Some (StageErr e) \<and> conns = [raw])))"
proof -
  have "valid_UpstreamConfig E u"
    using validated_valid [OF assms(1)] assms(2) unfolding valid_Config_def by blast
  then have "is_ok (ClientConfig E (u_Transport u) (u_KLESS u))"
    unfolding valid_UpstreamConfig_def by (blast intro: ClientConfig_valid)
  then obtain cc where cc: "ClientConfig E (u_Transport u) (u_KLESS u) = Inr cc" by (auto simp: is_ok_iff)
  note dialer = NewUpstreamDialer_validated [OF assms]
  show ?thesis
  proof (cases "dialRaw E N \<lparr>d_cfg = u\<rparr>")
    case (Inl err)
    with dialer show ?thesis by (simp add: Dial_def)
  next
    case (Inr raw)
    show ?thesis
    proof (cases "ClientHandshake N raw cc")
      case None
      with dialer Inr cc show ?thesis by (simp add: Dial_def)
    next
      case (Some err)
      then have "\<exists>cc. ClientHandshake N raw cc = Some err" by blast
      with Some dialer Inr cc show ?thesis by (simp add: Dial_def)
    qed
  qed
qed

theorem dial_failures_witness:
  "NewUpstreamDialer sample_env sample_upstream = Inr \<lparr>d_cfg = sample_upstream\<rparr>"
  using dial_failures [OF sample_validates, of sample_upstream] by simp

text \<open>C25: \<open>check-upstreams\<close> reports success exactly when the configuration validates and every one of
  its upstreams can be dialled, handshake included.\<close>

theorem check_upstreams_exact:
  "fst (CheckUpstreams E N c0) = None \<longleftrightarrow>
     is_ok (Config_Validate E c0) \<and>
     list_all (\<lambda>u. is_ok (fst (Dial E N \<lparr>d_cfg = u\<rparr>)))
       (case Config_Validate E c0 of Inl _ \<Rightarrow> [] | Inr c \<Rightarrow> c_Upstreams c)"
  by (cases "Config_Validate E c0") (auto simp: CheckUpstreams_ok list_all_iff)

text \<open>An upstream over HTTP/3.\<close>

definition http3_upstream :: UpstreamConfig where
  "http3_upstream = sample_upstream\<lparr>u_Transport := ''http3'', u_URL := ''https://panel''\<rparr>"

definition http3_config :: Config where
  "http3_config = sample_config\<lparr>c_Upstreams := [http3_upstream]\<rparr>"

text \<open>HTTP/3 is an accepted transport without an implementation: there is a configuration that
  validates and whose upstream fails to dial whatever the network does.\<close>

theorem http3_never_dials:
  "\<exists>c. Config_Validate sample_env c = Inr c \<and> (\<forall>N. fst (CheckUpstreams sample_env N c) \<noteq> None)"
proof -
  have http3: "u_Transport http3_upstream = TransportHTTP3"
    by (simp add: http3_upstream_def transport_defs)
  have lower: "ToLower sample_env ''http3'' = ''http3''" "trim_space ''http3'' = ''http3''"
    by (simp add: ToLower_ascii is_ascii_def ascii_lower_def) (rule plain_text, simp add: plain_char_def)
  have keys: "unmixed (key_text sample_secret) (key_text sample_public)" by (simp add: unmixed_def)
  have "valid_KLESSConfig sample_env ''http3'' (u_KLESS sample_upstream)"
    using keys
    by (simp add: valid_KLESSConfig_def sample_upstream_def good_padding_def sample_env_def sample_kless_def
        capabilityMask_def capabilityForTransport_def transport_defs)
  then have up: "valid_UpstreamConfig sample_env http3_upstream"
    by (simp add: valid_UpstreamConfig_def http3_upstream_def supported_transports_def transport_defs
        transportUsesAddress_def good_url_def sample_url_def)
  have "valid_Config sample_env http3_config"
    using sample_valid up
    by (simp add: valid_Config_def http3_config_def) (simp add: http3_upstream_def sample_upstream_def)
  moreover have "normalize_config sample_env http3_config = http3_config"
    using lower
    by (simp add: http3_config_def http3_upstream_def normalize_config_def Config_applyDefaults_def
      sample_config_defs KboardConfig_applyDefaults_def normalizeEndpoint_def trim_right_slash_def
      UpstreamConfig_applyDefaults_def InboundConfig_applyDefaults_def normalize_inbound_def
      normalize_server_def ServerKLESSConfig_applyDefaults_def inbound_mode_defs)
  ultimately have valid: "Config_Validate sample_env http3_config = Inr http3_config"
    unfolding Config_Validate_iff by simp
  have "\<not> is_ok (fst (Dial sample_env N \<lparr>d_cfg = http3_upstream\<rparr>))" for N
    by (rule Dial_http3) (simp add: http3)
  then have "fst (CheckUpstreams sample_env N http3_config) \<noteq> None" for N
    using valid by (simp add: CheckUpstreams_ok) (simp add: http3_config_def)
  with valid show ?thesis by blast
qed

section \<open>Counters\<close>

text \<open>C33: However the updates of all connections interleave, the counters a snapshot reports are the
  numbers of the updates: their order does not matter; connections, refusals and each kind of
  error are counted exactly, and the bytes of each direction are those copied in it, up to the
  width of 64 bits; the gauge is the number of begun less ended connections.\<close>

theorem metrics_exact:
  assumes "occurs us End \<le> occurs us Begin" and "occurs us Begin < 2 ^ 63" and "mset us = mset vs"
    and "shown = Snapshot moment (apply_updates us (NewMetrics start))"
  shows "apply_updates us m = apply_updates vs m \<and>
    sn_StartedAt shown = start \<and>
    sn_Active shown = int (occurs us Begin) - int (occurs us End) \<and>
    sn_Total shown = occurs us Begin \<and>
    sn_Rejected shown = occurs us Rejected mod 2 ^ 64 \<and>
    sn_TransportErrors shown = occurs us TransportError mod 2 ^ 64 \<and>
    sn_HandshakeErrors shown = occurs us HandshakeError mod 2 ^ 64 \<and>
    sn_ProxyErrors shown = occurs us ProxyError mod 2 ^ 64 \<and>
    sn_UpstreamBytes shown = sum_list (map unat [n. UpBytes n \<leftarrow> us]) mod 2 ^ 64 \<and>
    sn_DownstreamBytes shown = sum_list (map unat [n. DownBytes n \<leftarrow> us]) mod 2 ^ 64"
proof -
  have "apply_updates us m = apply_updates vs m" by (rule apply_updates_perm [OF assms(3)])
  moreover have "sn_Active shown = int (occurs us Begin) - int (occurs us End)"
    using active_in_range [OF assms(1,2)] by (simp only: assms(4) Snapshot_updates MetricsSnapshot.select_convs)
  moreover have "occurs us Begin mod 2 ^ 64 = occurs us Begin" using assms(2) by simp
  ultimately show ?thesis
    unfolding assms(4) Snapshot_updates MetricsSnapshot.select_convs by (intro conjI refl) simp_all
qed

theorem metrics_exact_witness:
  "sn_UpstreamBytes (Snapshot 0 (apply_updates [Begin, Begin, UpBytes 5, DownBytes 2, ProxyError, UpBytes 4, End]
     (NewMetrics 0))) = 9"
  using metrics_exact [of "[Begin, Begin, UpBytes 5, DownBytes 2, ProxyError, UpBytes 4, End]" _ _ 0 0, OF _ _ refl refl]
  by simp

end
