(* ===== verification/Panel_Properties.thy ===== *)
theory Panel_Properties
  imports Service_Properties
begin

text \<open>
  The properties of the reporter that talks to the panel, from its construction in \<open>Run\<close> to what
  its synchronisation means for the clients of the relays.
\<close>

section \<open>The reporter of a service\<close>

lemma New_store:
  assumes "New E start c0 = Inr s"
  shows "store_inv (sv_store s) \<and> strong_store (sv_store s) \<and> sv_access s = newAccessLogBuffer"
proof -
  obtain s' where "New E start c0 = Inr s'" "sv_access s' = newAccessLogBuffer"
    "sv_store s' = all_static (c_Inbounds (sv_cfg s)) newDynamicClientStore"
    using New_valid [of E c0 "sv_cfg s" start] New_facts [OF assms] by blast
  then show ?thesis
    using assms by (simp add: all_static_inv strong_store_def newDynamicClientStore_def [THEN arg_cong, of dynamicSecrets])
qed

text \<open>C11: Over the whole life of a service's reporter, whatever the panel answers and whatever the relays
  record, between the reports and while a batch is with the panel: every request it has sent
  carries a signature the panel can recompute from the shared secret, the fixed credentials are
  those of the configuration, every credential installed from the panel has at least 32 bytes of
  secret, and the access log never exceeds its bound.\<close>

theorem reporter_safe:
  assumes "New E start c0 = Inr s"
    and "service_reporter hname runtimeInfo arch version s = Some r"
    and "r' = fst (run_reporter E P active events r)"
  shows "(\<forall>req \<in> set (r_sent r'). correctly_signed E (r_cfg r') req) \<and> r_cfg r' = r_cfg r \<and>
    (\<forall>st. r_userStore r' = Some st \<longrightarrow>
       store_inv st \<and> strong_store st \<and> staticSecrets st = staticSecrets (sv_store s)) \<and>
    length (buffered (r_accessLogs r')) \<le> maxAccessLogQueueSize"
proof -
  note store = New_store [OF assms(1)]
  obtain kb where r: "r = newKboardReporter kb (c_NodeID (sv_cfg s)) hname runtimeInfo arch version
      (reporter_store s) (sv_access s)"
    using assms(2) by (auto simp: service_reporter_def)
  have "reporter_inv E r"
    unfolding r using store
    by (intro newKboardReporter_inv) (auto simp: reporter_store_def newAccessLogBuffer_def split: if_splits)
  then have inv: "reporter_inv E r'" unfolding assms(3) by (rule run_reporter_preserves)
  have fixed: "fixed_part r' = fixed_part r" unfolding assms(3) by (rule run_reporter_preserves)
  have "r_userStore r = reporter_store s" by (simp add: r newKboardReporter_def)
  then have "staticSecrets st = staticSecrets (sv_store s)" if "r_userStore r' = Some st" for st
    using that fixed by (auto simp: fixed_part_def reporter_store_def split: if_splits)
  moreover have "length (buffered (r_accessLogs r')) \<le> maxAccessLogQueueSize"
    using inv by (cases "r_accessLogs r'") (simp_all add: reporter_inv_def buffered_def)
  moreover have "r_cfg r' = r_cfg r" using fixed by (simp add: fixed_part_def)
  ultimately show ?thesis using inv unfolding reporter_inv_def all_signed_def by fastforce
qed

definition sample_panel :: panel where
  "sample_panel =
     \<lparr>json_Marshal = (\<lambda>_. Inr []), json_Value = Inr,
      json_plain = (\<lambda>_. Inr \<lparr>ur_ProtocolVersion = ''1'', ur_NodeID = 7, ur_Users = None, ur_Count = 0, ur_PulledAt = 0\<rparr>),
      json_wrapped = (\<lambda>_. Inl EOF),
      http_Do = (\<lambda>_. Inr \<lparr>StatusCode = 200, StatusText = ''200 OK'', ETag = ''v1'', Body = []\<rparr>),
      unix_time = 0, unix_nano = 0, relay_records = []\<rparr>"

text \<open>A relay records before and after the panel's tick and while the batch is with the panel.\<close>

definition sample_events :: "report_event list" where
  "sample_events =
     [Recorded sample_item, Tick (sample_panel\<lparr>relay_records := [sample_item, sample_item]\<rparr>) 1,
      Recorded sample_item, Done sample_panel]"

theorem reporter_safe_witness:
  "\<exists>s r. New sample_env 0 sample_config = Inr s \<and> service_reporter ''h'' ''go'' ''amd64'' ''dev'' s = Some r \<and>
     (\<forall>req \<in> set (r_sent (fst (run_reporter sample_env sample_panel 0 sample_events r))).
        correctly_signed sample_env sample_kboard req) \<and>
     length (buffered (r_accessLogs (fst (run_reporter sample_env sample_panel 0 sample_events r)))) \<le> 10000"
proof -
  obtain s where s: "New sample_env 0 sample_config = Inr s" "sv_cfg s = sample_config"
    using New_sample by blast
  then obtain r where r: "service_reporter ''h'' ''go'' ''amd64'' ''dev'' s = Some r" "r_cfg r = sample_kboard"
    by (simp add: service_reporter_def newKboardReporter_def)
  note safe = reporter_safe [OF s(1) r(1) refl, of sample_panel 0 sample_events]
  then have "\<forall>req \<in> set (r_sent (fst (run_reporter sample_env sample_panel 0 sample_events r))).
      correctly_signed sample_env sample_kboard req" using r(2) by metis
  moreover have "length (buffered (r_accessLogs (fst (run_reporter sample_env sample_panel 0 sample_events r)))) \<le> 10000"
    using safe unfolding maxAccessLogQueueSize_def by blast
  ultimately show ?thesis using s r by blast
qed

section \<open>The user list\<close>

text \<open>C22: One synchronisation decides who can log in: when the panel answers the signed request with a
  status from 200 to 299 and a list, a relay finds for every client the secret of the list, of at
  least 32 bytes, else the fixed one, and nothing of an earlier list; when it answers anything
  else (that nothing changed, an error, another status, no list) nothing changes.\<close>

theorem sync_lookup:
  assumes "r_userStore r = Some st" and "kb_UsersEndpoint (r_cfg r) \<noteq> []"
    and "r_userStore (syncUsers E P r) = Some st'"
  shows "(\<forall>users. panel_lists E P r users \<longrightarrow>
      LookupClientSecret st' =
        (\<lambda>clientID. case listed_secret (r_cfg r) users clientID of
           Some secret \<Rightarrow> Some secret | None \<Rightarrow> staticSecrets st clientID)) \<and>
    ((\<nexists>users. panel_lists E P r users) \<longrightarrow> LookupClientSecret st' = LookupClientSecret st)"
  using syncUsers_lists [OF assms] by blast

text \<open>A reporter with one user of an earlier list.\<close>

definition sample_reporter :: reporter where
  "sample_reporter = newKboardReporter sample_kboard ''7'' ''h'' ''go'' ''amd64'' ''dev''
     (Some (ReplaceDynamic [\<lparr>cred_ClientID = ''local'', cred_Secret = sample_secret, cred_UserID = 7\<rparr>]
        newDynamicClientStore)) newAccessLogBuffer"

lemma sample_reporter_sel [simp]:
  "r_cfg sample_reporter = sample_kboard" "r_usersETag sample_reporter = []"
  "r_userStore sample_reporter = Some (ReplaceDynamic [\<lparr>cred_ClientID = ''local'', cred_Secret = sample_secret,
     cred_UserID = 7\<rparr>] newDynamicClientStore)"
  by (simp_all add: sample_reporter_def newKboardReporter_def)

lemma sample_users_endpoint [simp]: "kb_UsersEndpoint sample_kboard = ''/users''"
  by (simp add: sample_kboard_def)

lemma sample_answer:
  "\<exists>r1. getJSON sample_env sample_panel ''/users'' [] sample_reporter =
     (Inr (''v1'', False, Some \<lparr>ur_ProtocolVersion = ''1'', ur_NodeID = 7, ur_Users = None, ur_Count = 0,
        ur_PulledAt = 0\<rparr>), r1)"
proof -
  obtain hdr where "sign sample_env sample_panel sample_reporter u ''GET'' = Inr (hdr u)" for u
    unfolding sign_def Let_def sample_url_ok by (simp only: sum.case)
  moreover have "http_Do sample_panel req = Inr \<lparr>StatusCode = 200, StatusText = ''200 OK'', ETag = ''v1'', Body = []\<rparr>"
    "json_Value sample_panel b = Inr b" for req b
    by (simp_all add: sample_panel_def)
  moreover have "UnmarshalJSON sample_panel b = Inr \<lparr>ur_ProtocolVersion = ''1'', ur_NodeID = 7, ur_Users = None,
      ur_Count = 0, ur_PulledAt = 0\<rparr>" for b
    by (simp add: UnmarshalJSON_def empty_response_def sample_panel_def)
  ultimately show ?thesis by (simp add: getJSON_def Let_def)
qed

lemma sample_sync:
  "r_userStore (syncUsers sample_env sample_panel sample_reporter) = Some newDynamicClientStore"
proof -
  obtain r1 where r1: "getJSON sample_env sample_panel ''/users'' [] sample_reporter =
     (Inr (''v1'', False, Some \<lparr>ur_ProtocolVersion = ''1'', ur_NodeID = 7, ur_Users = None, ur_Count = 0,
        ur_PulledAt = 0\<rparr>), r1)"
    using sample_answer by blast
  have "ReplaceDynamic [] (ReplaceDynamic cs newDynamicClientStore) = newDynamicClientStore" for cs
    by (simp add: store_op_eqs newDynamicClientStore_def secrets_of_def users_of_def fun_eq_iff)
  with r1 show ?thesis by (simp add: syncUsers_def)
qed

definition sample_user :: KboardUser where
  "sample_user =
     \<lparr>user_ID = 8, user_UUID = ''8'', user_Token = ''fixed'', user_ClientID = [], user_KLESSClientID = [],
      user_ClientSecret = [], user_KLESSSecret = []\<rparr>"

definition listing_panel :: panel where
  "listing_panel = sample_panel\<lparr>json_plain :=
     (\<lambda>_. Inr \<lparr>ur_ProtocolVersion = [], ur_NodeID = 7, ur_Users = Some [sample_user], ur_Count = 1, ur_PulledAt = 0\<rparr>)\<rparr>"

lemma listing_panel_lists: "panel_lists sample_env listing_panel sample_reporter [sample_user]"
proof -
  obtain hdr where "sign sample_env listing_panel sample_reporter u ''GET'' = Inr (hdr u)" for u
    unfolding sign_def Let_def sample_url_ok by (simp only: sum.case)
  moreover have "http_Do listing_panel req = Inr \<lparr>StatusCode = 200, StatusText = ''200 OK'', ETag = ''v1'', Body = []\<rparr>"
    "json_Value listing_panel b = Inr b" for req b
    by (simp_all add: listing_panel_def sample_panel_def)
  moreover have "body_users listing_panel b [sample_user]" for b
    by (simp add: body_users_def listing_panel_def)
  ultimately show ?thesis by (auto simp: panel_lists_def)
qed

text \<open>The user of an earlier list is gone, the new one can log in with its derived secret.\<close>

theorem sync_lookup_witness:
  "\<exists>st'. r_userStore (syncUsers sample_env listing_panel sample_reporter) = Some st' \<and>
     LookupClientSecret st' ''local'' = None \<and>
     LookupClientSecret st' ''8'' = Some (deriveUserClientSecret ''shared'' ''8'' ''fixed'')"
proof -
  have "fixed_part (syncUsers sample_env listing_panel sample_reporter) = fixed_part sample_reporter"
    by (rule syncUsers_fixed)
  then obtain st' where st': "r_userStore (syncUsers sample_env listing_panel sample_reporter) = Some st'"
    by (cases "r_userStore (syncUsers sample_env listing_panel sample_reporter)") (auto simp: fixed_part_def)
  have "LookupClientSecret st' clientID = (case listed_secret sample_kboard [sample_user] clientID of
      Some secret \<Rightarrow> Some secret
    | None \<Rightarrow> staticSecrets (ReplaceDynamic [\<lparr>cred_ClientID = ''local'', cred_Secret = sample_secret,
        cred_UserID = 7\<rparr>] newDynamicClientStore) clientID)" for clientID
    using sync_lookup [OF sample_reporter_sel(3) _ st'] listing_panel_lists by simp
  moreover have "listed_secret sample_kboard [sample_user] ''local'' = None"
    "listed_secret sample_kboard [sample_user] ''8'' = Some (deriveUserClientSecret ''shared'' ''8'' ''fixed'')"
    by (simp_all add: listed_secret_Cons panel_secret_def clientIDForUser_def sample_user_def sample_kboard_def
        trim_space_plain plain_char_def)
  ultimately show ?thesis using st' by (simp add: store_op_eqs newDynamicClientStore_def)
qed

section \<open>The access log\<close>

text \<open>C13: A flush is all or nothing: at most 5000 records, the oldest ones, leave the buffer when the
  panel answers the request for them with a status from 200 to 299; whatever else happens (no
  encoding, no address, no connection, any other status) they stay in front.  What the relays
  record meanwhile follows, up to the bound of 10000.\<close>

theorem flush_exact:
  assumes "r_accessLogs r = Some b" and "kb_AccessLogsEndpoint (r_cfg r) \<noteq> []"
    and "length (log_items b) \<le> 10000"
  shows "r_accessLogs (reportAccessLogs E P r) = Some (b\<lparr>log_items :=
    (if log_items b = [] then []
     else if panel_took E P r (take 5000 (log_items b))
     then take 10000 (drop 5000 (log_items b) @ wanted_records (relay_records P))
     else take 10000 (log_items b @ wanted_records (relay_records P)))\<rparr>)"
  using reportAccessLogs_buffer [OF assms(1,2) _ refl refl, of E P] assms(3)
  by (simp only: maxAccessLogQueueSize_def)

definition flush_reporter :: reporter where
  "flush_reporter = sample_reporter\<lparr>r_accessLogs := Some (buffer sample_log)\<rparr>"

lemma flush_reporter_sel [simp]:
  "r_accessLogs flush_reporter = Some (buffer sample_log)" "kb_AccessLogsEndpoint (r_cfg flush_reporter) \<noteq> []"
  "log_items (buffer sample_log) = [sample_item]" "in_flight sample_log = []"
  by (simp_all add: flush_reporter_def sample_kboard_def sample_log_def log_start_def)

lemma sample_took: "panel_took sample_env sample_panel flush_reporter items"
  by (simp add: panel_took_def) (simp add: sample_panel_def)

theorem flush_exact_witness:
  "r_accessLogs (reportAccessLogs sample_env sample_panel flush_reporter) = Some \<lparr>log_items = []\<rparr>"
  using flush_exact [of flush_reporter "buffer sample_log" sample_env sample_panel] sample_took
  by (simp add: wanted_records_def sample_panel_def)

text \<open>C14: The reporter's flush implements the abstract life of the access records: it is a run of
  \<open>log_step\<close> that drains, lets the relays record, and then has the batch acknowledged exactly when
  the panel took it and else puts it back; the records accepted on the way are those the relays
  made while the batch was with the panel, as far as there was room.\<close>

theorem flush_refines:
  assumes "r_accessLogs r = Some (buffer s)" and "in_flight s = []"
    and "kb_AccessLogsEndpoint (r_cfg r) \<noteq> []"
    and "batch = take 5000 (log_items (buffer s))"
  shows "\<exists>t. log_step\<^sup>*\<^sup>* s t \<and> r_accessLogs (reportAccessLogs E P r) = Some (buffer t) \<and> in_flight t = [] \<and>
    acknowledged t = acknowledged s @ (if panel_took E P r batch then batch else []) \<and>
    accepted t = accepted s @
      (if batch = [] then []
       else take (maxAccessLogQueueSize - length (drop 5000 (log_items (buffer s)))) (wanted_records (relay_records P)))"
  using reportAccessLogs_refines [OF assms refl] .

theorem flush_refines_witness:
  "\<exists>t. log_step\<^sup>*\<^sup>* sample_log t \<and>
     r_accessLogs (reportAccessLogs sample_env sample_panel flush_reporter) = Some (buffer t) \<and>
     acknowledged t = [sample_item]"
  using flush_refines [OF flush_reporter_sel(1) flush_reporter_sel(4) flush_reporter_sel(2) refl, of sample_env sample_panel]
    sample_took by (auto simp: sample_log_def log_start_def)

end
