(* ===== verification/Cli_Properties.thy ===== *)
theory Cli_Properties
  imports Panel_Properties
begin

text \<open>
  The properties of the command line: what its exit status says, and where the sample
  configuration, the flags and the creation of a configuration file fall short.
\<close>

text \<open>C37: \<open>knode check -config path\<close> exits with status 0 exactly when the file can be read, decodes and
  validates; \<open>knode run\<close> exits with status 0 exactly when the service built from such a
  configuration runs to an end without an error (\<open>serve\<close> is \<open>Run\<close> on the system's listeners and
  signals).\<close>

theorem check_command:
  "(main_status (run_cli E N S sample ver [''check'', ''-config'', path]) = 0 \<longleftrightarrow>
      (\<exists>f c0 c. os_Open S path = Inr f \<and> json_Config S f = Inr c0 \<and> Config_Validate E c0 = Inr c)) \<and>
   (main_status (run_cli E N S sample ver [''run'', ''-config'', path]) = 0 \<longleftrightarrow>
      (\<exists>c s. Load E S path = Inr c \<and> New E (start_time S) c = Inr s \<and> serve S s = None))"
proof -
  have "main_status (run_cli E N S sample ver [''check'', ''-config'', path]) = 0 \<longleftrightarrow> is_ok (Load E S path)"
    by (simp add: run_cli_def dispatch_def checkConfig_ok)
  moreover have "main_status (run_cli E N S sample ver [''run'', ''-config'', path]) = 0 \<longleftrightarrow>
      (\<exists>c s. Load E S path = Inr c \<and> New E (start_time S) c = Inr s \<and> serve S s = None)"
    by (auto simp: run_cli_def dispatch_def runServer_def with_flags_def parse_config_flag main_status_def
        split: sum.splits option.splits)
  ultimately show ?thesis by (simp add: is_ok_iff Load_ok_iff) blast
qed

lemma placeholder_secret:
  "\<exists>bs. decodeKey ''replace-with-base64url-client-secret'' = Inr bs \<and> length bs = 27"
proof -
  have "drop_blanks (trim_space ''replace-with-base64url-client-secret'') = ''replace-with-base64url-client-secret''"
    by (simp add: plain_text plain_char_def drop_blanks_def)
  then show ?thesis
    by (simp add: decodeKey_def b64_encoding_defs b64_decode.simps b64_digit_def pad_char_def quantum_bytes_def)
qed

text \<open>C38: The configuration \<open>knode init\<close> writes does not validate until its placeholders are replaced:
  its client secret decodes to fewer than 32 bytes, whatever the environment.\<close>

theorem sample_rejected:
  "Config_Validate E SampleJSON_config =
     Inl (WrapIdx ''upstreams'' 0 (Wrap ''kless'' (Err ''client_secret must decode to at least 32 bytes'')))"
proof -
  have texts: "trim_space ''knode-a'' = ''knode-a''" "trim_space ''kray-primary'' = ''kray-primary''"
    "trim_space ''tcp'' = ''tcp''" "trim_space ''127.0.0.1:9000'' = ''127.0.0.1:9000''" "trim_space [] = []"
    by (rule plain_text; simp add: plain_char_def)+
  have lower: "ToLower E ''tcp'' = ''tcp''" by (simp add: ToLower_ascii is_ascii_def ascii_lower_def)
  obtain bs where bs: "decodeKey ''replace-with-base64url-client-secret'' = Inr bs" "length bs = 27"
    using placeholder_secret by blast
  have ten: "\<exists>d. parseDuration ''10s'' f = Inr d" for f
    using sample_durations(1) by (auto simp: good_duration_def parseDuration_def split: sum.splits)
  define u where "u = hd (c_Upstreams SampleJSON_config)"
  have fields: "u_Name u = ''kray-primary''" "u_Transport u = ''tcp''" "u_Address u = ''127.0.0.1:9000''"
    "u_DialTimeout u = ''10s''" "k_ClientID (u_KLESS u) = ''knode-a''"
    "k_ClientSecret (u_KLESS u) = ''replace-with-base64url-client-secret''"
    "k_ServerSigningKey (u_KLESS u) = ''replace-with-base64url-ed25519-public-key''"
    by (simp_all add: u_def SampleJSON_config_def)
  have normal: "UpstreamConfig_applyDefaults E u = u"
    by (simp add: u_def SampleJSON_config_def UpstreamConfig_applyDefaults_def texts lower)
  have "\<not> sameNonEmptySecret ''replace-with-base64url-client-secret'' ''replace-with-base64url-ed25519-public-key''"
    by (simp add: sameNonEmptySecret_def plain_text plain_char_def)
  then have kless: "KLESSConfig_Validate E ''tcp'' (u_KLESS u) =
      Inl (Err ''client_secret must decode to at least 32 bytes'')"
    using bs by (simp add: KLESSConfig_Validate_def k_ClientSecretBytes_def fields)
  obtain d where "parseDuration ''10s'' DefaultDialTimeout = Inr d" using ten by blast
  then have upstream: "UpstreamConfig_Validate E u =
      Inl (Wrap ''kless'' (Err ''client_secret must decode to at least 32 bytes''))"
    by (simp add: UpstreamConfig_Validate_def normal fields kless supported_iff supported_transports_def
        transport_defs UpstreamConfig_check_url_def transportUsesURL_def transportUsesAddress_def Let_def)
  obtain d' where "parseDuration ''10s'' DefaultShutdownGrace = Inr d'" using ten by blast
  moreover have "c_Upstreams SampleJSON_config = [u]" by (simp add: u_def SampleJSON_config_def)
  moreover have "c_NodeID SampleJSON_config = ''knode-a''" "c_Inbounds SampleJSON_config \<noteq> []"
    "c_ShutdownGrace SampleJSON_config = ''10s''" "c_Kboard SampleJSON_config = None"
    by (simp_all add: SampleJSON_config_def)
  ultimately show ?thesis
    by (simp add: Config_Validate_def Config_applyDefaults_def normal upstream texts validate_kboard_def Let_def)
qed

text \<open>The help flags do not print the usage: an argument list that starts with a flag goes to the
  command \<open>run\<close>, whose flag set ends the process itself.\<close>

theorem help_flag_unreachable:
  "run_cli E N S sample ver [''--help''] = ([], Exited 0) \<and> run_cli E N S sample ver [''-h''] = ([], Exited 0) \<and>
   run_cli E N S sample ver [''help''] = (usage_lines, Returned None)"
proof -
  have "parse_flags v [''--help''] p b = FlagExit 0" "parse_flags v [''-h''] p b = FlagExit 0" for v p b
    by (subst parse_flags.simps; simp add: flag_name_def split_flag_def)+
  then show ?thesis by (simp add: run_cli_def dispatch_def runServer_def with_flags_def)
qed

text \<open>C39: \<open>knode init\<close> cannot create a configuration in the root directory: the parent it computes for
  such a path is the empty text, which the operating system does not accept as a directory to
  create, so the command fails with status 1 and writes nothing.\<close>

theorem init_in_root_fails:
  assumes "CHR ''/'' \<notin> set name" and "CHR 0x5C \<notin> set name"
    and "os_MkdirAll S [] defaultConfigDirectory = Some err"
  shows "main_status (run_cli E N S sample ver [''init'', ''-config'', CHR ''/'' # name]) = 1"
  using assms(3) parentDir_root [OF assms(1,2)]
  by (simp add: run_cli_def dispatch_def initConfig_def with_flags_def parse_config_flag WriteSample_def
      main_status_def)

definition sample_os :: os_env where
  "sample_os =
     \<lparr>os_Open = Inr, json_Config = (\<lambda>_. Inr sample_config), os_exists = (\<lambda>_. False),
      os_MkdirAll = (\<lambda>dir _. if dir = [] then Some (Ext ''mkdir : no such file or directory'') else None),
      os_WriteFile = (\<lambda>_ _ _. None), manager_path = [], run_command = (\<lambda>_. None), net_Listen = (\<lambda>_ a. Inr a),
      run_end = (\<lambda>_. ContextDone CtxCanceled), run_finish = (\<lambda>_. None),
      start_time = 0, GenerateServerIdentity = Inr (sample_public, sample_private),
      GenerateClientSecret = Inr sample_secret, EncodeKey = key_text\<rparr>"

theorem init_in_root_fails_witness:
  "main_status (run_cli sample_env sample_net sample_os [] [] [''init'', ''-config'', ''/knode.json'']) = 1"
  by (rule init_in_root_fails [of "''knode.json''" sample_os "Ext ''mkdir : no such file or directory''"])
    (simp_all add: sample_os_def)

end
