(* ===== verification/Spec2Isabelle.thy ===== *)
theory Spec2Isabelle
  imports Config_Properties Cli_Properties
begin

text \<open>
  Verification development of Knode, the KLESS node backend for the Kboard panel.

  The program.  \<open>cmd/knode/main.go\<close> is the command line; \<open>internal/config\<close> reads, normalises and
  validates the configuration; \<open>internal/node\<close> is the node.  A node listens on its inbounds.  A
  \<open>tcp\<close> inbound forwards every connection through an upstream, which a dialer reaches over one of
  several transports with a KLESS handshake; a \<open>kless-server\<close> inbound is a relay, which makes the
  server side of the handshake, reads one request and connects the client to a TCP target or to
  UDP.  All relays share one store of client credentials and one buffer of access records.  A
  reporter pulls the user list from the panel into the store and pushes the state of the node and
  the access records to the panel, every request signed.  Counters and four admin endpoints show
  the node's state.

  The theories, in the order of the imports.
  \<^item> Vocabulary: \<open>Prelude\<close> (Go errors as values, results as sums), \<open>Transition_Systems\<close> (the
    contracts of the step relations: an invariant, a measure), \<open>Go_Strings\<close> (\<open>strings\<close> and decimal
    text), \<open>Base64\<close>, \<open>Duration\<close> and \<open>Duration_Text\<close> (\<open>time.ParseDuration\<close> with its floating-point
    rounding, \<open>Duration.String\<close>, their round trip), \<open>Sha256\<close> (SHA-256, HMAC), \<open>Externals\<close> (what
    the configuration uses of \<open>kless\<close>, \<open>net/url\<close> and the file system), \<open>Go_Errors\<close> (texts of
    errors), \<open>Net_Address\<close> (\<open>net.SplitHostPort\<close>, \<open>JoinHostPort\<close>, host names, header keys).
  \<^item> \<open>internal/config\<close>: \<open>Keys\<close> (\<open>decodeKey\<close> and the key checks), \<open>Config\<close> (the types, defaults,
    accessors), \<open>Config_Validate\<close> (every \<open>Validate\<close>, in the order of its checks), \<open>Config_Spec\<close>
    (the declarative validity predicate and the equivalence with the code), \<open>Config_Idempotent\<close>.
  \<^item> \<open>internal/node\<close>: \<open>Client_Store\<close> (\<open>client_store.go\<close>), \<open>Access_Log\<close> (\<open>access_log.go\<close>),
    \<open>Metrics\<close> (\<open>metrics.go\<close>), \<open>Copy_Pair\<close>, \<open>Relay_Pipe\<close> and \<open>Proxy_Context\<close>
    (the two proxies, and a proxy with its context), \<open>Relay_Protocol\<close>
    (\<open>relay_protocol.go\<close>), \<open>Server_Relay\<close>, \<open>Server_Relay_Facts\<close> and \<open>Udp_Association\<close> (\<open>server_relay.go\<close>), \<open>Dialer\<close>
    (\<open>dialer.go\<close>, \<open>check.go\<close>), \<open>Kboard\<close> and \<open>Kboard_Facts\<close> (\<open>kboard.go\<close>, \<open>build.go\<close>),
    \<open>Node_Service\<close>, \<open>Accept_Loop\<close>, \<open>Run_Service\<close> and \<open>Node_Lifecycle\<close> (\<open>service.go\<close>).
  \<^item> \<open>cmd/knode\<close>: \<open>Cli\<close>, with \<open>Load\<close>, \<open>WriteSample\<close> and the sample configuration.
  \<^item> \<open>Samples\<close> holds the concrete values of the witnesses; \<open>Config_Properties\<close>,
    \<open>Relay_Properties\<close>, \<open>Service_Properties\<close>, \<open>Panel_Properties\<close>, \<open>Cli_Properties\<close> and this theory
    state the properties, each under its number and followed by an application at concrete
    values where it has hypotheses.

  How state and code correspond.  A struct is a record with the fields of the source under a
  prefix, a Go map a partial function, a slice a list, a nil pointer \<open>None\<close>.  A method that
  changes its receiver returns it changed.  Functions that return \<open>(T, error)\<close> are sums.  Counters
  are 64-bit words, ports 16-bit words, key material lists of 8-bit words; configuration integers
  are unbounded, as no arithmetic is done on them.  Code under a mutex is one atomic step.  What
  runs in several goroutines is a step relation: the proxies, the UDP association, the accept loops, the whole of
  \<open>Run\<close> with its workers, error channel and shutdown, and the life of the access records; the functions \<open>pipe_run\<close>,
  \<open>pipeUDPAssociate\<close> and \<open>Run\<close> give what the caller sees of them.  The effects of a relay are a trace of the connections it opens and
  closes, the responses and the log lines.  The reporter is a function of the events of its loop;
  what the relays record meanwhile is an event of its own, or, while a batch is with the panel,
  the field \<open>relay_records\<close> of that moment's \<open>panel\<close>.

  Ghost fields keep the history of a run and are read by no operation: what the two copies of a
  proxy returned and the order of their sends (\<open>got_up\<close>, \<open>got_down\<close>, \<open>send_order\<close>), the refusals of
  an inbound (\<open>loop_refused\<close>), and the records acknowledged, accepted and displaced
  (\<open>acknowledged\<close>, \<open>accepted\<close>, \<open>lost\<close>).  What the panel has taken or listed is stated over its
  answers (\<open>panel_took\<close>, \<open>panel_lists\<close>), not over the results of the requests.

  Interfaces.  The locale \<open>digest_function\<close> (interpreted on SHA-256) carries HMAC;
  \<open>credential_directory\<close> (interpreted on the store) what relays and reporter rely on;
  \<open>bounded_queue\<close> (interpreted on the access buffer) the buffer's contract; \<open>invariant_system\<close>
  and \<open>terminating_system\<close> (interpreted on every step relation) reachability and termination.

  What is shown.  Validation accepts exactly the valid configurations and returns their normal
  form; after it no constructor fails, no duration is zero and every lookup succeeds.  Every
  connection is served to its end with everything closed and counted once; the limits of the
  inbounds hold, a connection is refused only at the limit of its own inbound, and the gauge is
  exact under all interleavings, as is every other counter; the proxies end unless both sides
  stay silent and the context alive, and return and count what their copies gave them.  Over all schedules \<open>Run\<close> returns exactly what its function
  computes; a node that stops gets to its end without blocking on the error channel, and leaves
  nothing behind that accepts or sends.  A relay answers exactly once and truthfully;
  removed users cannot log in, and after a synchronisation exactly the listed and the fixed can;
  every request to the panel is signed; access records are neither duplicated nor lost
  silently, and a batch leaves the buffer exactly when the panel has taken it.  Several properties show where the code falls short of its
  intent (HTTP/3, the sample configuration, the help flags, files in the root directory).

  Parameters.  Code outside the repository is an argument: the records \<open>kless_lib\<close> and \<open>relay_lib\<close>
  (constants, handshake, wire format of \<open>kray\<close>), \<open>net_lib\<close> (transports, TLS), \<open>panel\<close> (JSON codec,
  HTTP client, clock), \<open>os_env\<close> (files, processes, listeners, signals, key generator) and \<open>env\<close> (URL parsing, non-ASCII
  case mapping and quoting).  What the outside answers on one connection is a \<open>conn_env\<close>.  The
  only laws assumed of them are named hypotheses: \<open>relay_codec\<close> (what is written is read back)
  and that a handshake accepts only clients it finds in the store.

  Bounds and fuel.  No definition uses fuel: loops are structural or have a measure.  The loops
  over a connection's datagrams and over the reporter's ticks run on the finite list of events
  given to them; a loop at the end of its list still waits.

  Not modelled.  JSON encoding and decoding and URL parsing (parameters, see above); the
  contents of log lines beyond their kind and arguments; real time (timeouts are passed to the
  network, the period of the reporter's ticks is not tied to a clock); the memory model of Go
  (data races), panics of the runtime other than the nil dialer; the installer script, the
  release workflow and the tests.
\<close>

section \<open>From the panel to the relay\<close>

text \<open>C8: A user the panel has removed cannot log in any more: after a synchronisation whose list does
  not name the client, no handshake with a relay of the node authenticates it, unless the
  configuration has a fixed credential for it.  The handshake is assumed to accept only clients
  whose secret it finds in the store it is given.\<close>

theorem revoked_client_rejected:
  assumes "r_userStore r = Some st" and "kb_UsersEndpoint (r_cfg r) \<noteq> []"
    and "getJSON E P (kb_UsersEndpoint (r_cfg r)) (r_usersETag r) r = (Inr (etag, False, users), r1)"
    and "r_userStore (syncUsers E P r) = Some st'"
    and "\<forall>user \<in> set (pulled_users users). trim_space (clientIDForUser user) \<noteq> clientID"
    and "staticSecrets st clientID = None"
    and "\<forall>cfg name. ServerHandshake c cfg = Inr name \<longrightarrow> ks_ClientStore cfg name \<noteq> None"
  shows "ServerHandshake c (serverConfig E relay st') \<noteq> Inr clientID"
proof -
  have "cred_ClientID e = clientIDForUser user" if "fst (userCredential cfg user) = Some e" for cfg user e
    using that userCredential_strong [of cfg user e] by (metis prod.collapse)
  then have "last_for clientID (fst (user_credentials (r_cfg r) (pulled_users users))) = None"
    unfolding last_for_None using assms(5) by (metis user_credentials_mem)
  then have "LookupClientSecret st' clientID = None"
    using syncUsers_lookup [OF assms(1-4)] assms(6) by (simp add: secrets_of_def map_add_def)
  then have "ks_ClientStore (serverConfig E relay st') clientID = None"
    by (simp add: serverConfig_def Let_def)
  with assms(7) show ?thesis by blast
qed

text \<open>A handshake that looks the client \<open>local\<close> up.\<close>

definition careful_conn :: conn_env where
  "careful_conn = sample_conn\<lparr>ServerHandshake :=
     (\<lambda>cfg. if ks_ClientStore cfg ''local'' \<noteq> None then Inr ''local'' else Inl EOF)\<rparr>"

theorem revoked_client_rejected_witness:
  "ServerHandshake careful_conn (serverConfig sample_env sample_server_relay newDynamicClientStore) \<noteq> Inr ''local''"
proof -
  have careful: "\<forall>cfg name. ServerHandshake careful_conn cfg = Inr name \<longrightarrow> ks_ClientStore cfg name \<noteq> None"
    by (simp add: careful_conn_def)
  obtain r1 where r1: "getJSON sample_env sample_panel ''/users'' [] sample_reporter =
     (Inr (''v1'', False, Some \<lparr>ur_ProtocolVersion = ''1'', ur_NodeID = 7, ur_Users = None, ur_Count = 0,
        ur_PulledAt = 0\<rparr>), r1)"
    using sample_answer by blast
  have "staticSecrets (ReplaceDynamic cs newDynamicClientStore) ''local'' = None" for cs
    by (simp add: store_op_eqs newDynamicClientStore_def)
  then show ?thesis
    using revoked_client_rejected [OF sample_reporter_sel(3) _ _ sample_sync _ _ careful] r1
    by (simp add: pulled_users_def)
qed

end
